theory Spec2Isabelle
  imports Complex_Main "HOL-Library.Multiset"
begin

section \<open>Python values\<close>

text \<open>
  The two channel modules, \<^verbatim>\<open>seller.py\<close> (OZON) and \<^verbatim>\<open>market.py\<close> (Yandex Market), work on
  the rows of a spreadsheet and on JSON answers of the marketplaces. A cell of a row and an offer
  id is a scalar Python value: \<^verbatim>\<open>None\<close>, a \<^verbatim>\<open>str\<close> or an \<^verbatim>\<open>int\<close>. Structural equality of
  \<open>pyval\<close> is Python's \<^verbatim>\<open>==\<close> on these values (floats are outside the model).

  A Python \<^verbatim>\<open>str\<close> is modelled as a \<open>string\<close> holding the bytes of its UTF-8 encoding. The
  string operations of the two modules (\<^verbatim>\<open>split(".")\<close>, \<^verbatim>\<open>re.sub("[^0-9]", "", _)\<close>, comparison
  with ASCII literals) give on the encoding the encoding of what they give on the code points,
  since every byte of a multi-byte UTF-8 sequence is at least \<open>0x80\<close>.
\<close>

datatype pyval = PNone | PStr string | PInt int

text \<open>The payloads that the modules build are nested dictionaries and lists over scalars.\<close>

datatype pyobj = Val pyval | PList "pyobj list" | PDict "(string \<times> pyobj) list"

text \<open>The exceptions that the modelled code can raise.\<close>

datatype error = ValueError | TypeError | AttributeError | IndexError | HTTPError | ConnectionError

text \<open>\<^verbatim>\<open>d.get(k)\<close> on a payload: the value, or nothing where the key is absent.\<close>

fun field :: "pyobj \<Rightarrow> string \<Rightarrow> pyobj option" where
  "field (PDict kvs) k = map_of kvs k"
| "field (Val v) k = None"
| "field (PList xs) k = None"


subsection \<open>\<^verbatim>\<open>str()\<close>\<close>

definition digit_char :: "nat \<Rightarrow> char" where
  "digit_char d = ''0123456789'' ! d"

fun digits_of :: "nat \<Rightarrow> string" where
  "digits_of n =
     (if n < 10 then [digit_char n] else digits_of (n div 10) @ [digit_char (n mod 10)])"

declare digits_of.simps [simp del]

text \<open>
  \<^verbatim>\<open>str\<close> of an \<^verbatim>\<open>int\<close> is its decimal numeral. (CPython refuses to convert an \<^verbatim>\<open>int\<close> of more
  than 4300 digits; a cell of the spreadsheet holds no such number, and the model of \<^verbatim>\<open>str\<close>
  has no such case.)
\<close>

fun py_str :: "pyval \<Rightarrow> string" where
  "py_str PNone = ''None''"
| "py_str (PStr s) = s"
| "py_str (PInt i) = (if i < 0 then CHR ''-'' # digits_of (nat (- i)) else digits_of (nat i))"

subsection \<open>\<^verbatim>\<open>int()\<close>\<close>

text \<open>
  \<^verbatim>\<open>int(s)\<close> on a string, as CPython 3.11 computes it in the default configuration. The string
  is first brought to ASCII: a string of ASCII characters is taken as it is; in any other
  string a character below 127 is kept, a non-ASCII whitespace character becomes a blank, a
  non-ASCII decimal digit becomes the ASCII digit of its value, and at the first character
  that is none of these the text is cut and ends in \<^verbatim>\<open>?\<close>. The ASCII text is then read in base 10:
  leading and trailing whitespace (blank, \<^verbatim>\<open>\t\<close>, \<^verbatim>\<open>\n\<close>, \<^verbatim>\<open>\v\<close>, \<^verbatim>\<open>\f\<close>, \<^verbatim>\<open>\r\<close>) is skipped, one
  sign is allowed, and the rest is one or more groups of digits separated by single
  underscores, with at most \<^verbatim>\<open>sys.get_int_max_str_digits()\<close> digits. Anything else raises
  \<^verbatim>\<open>ValueError\<close>.
\<close>

definition is_digit :: "char \<Rightarrow> bool" where
  "is_digit c = (c \<in> set ''0123456789'')"

definition digit_val :: "char \<Rightarrow> int" where
  "digit_val c = int (of_char c) - 48"

text \<open>The whitespace of the ASCII text: \<^verbatim>\<open>Py_ISSPACE\<close>.\<close>

definition is_space :: "char \<Rightarrow> bool" where
  "is_space c = (c \<in> set [CHR '' '', CHR 0x09, CHR 0x0A, CHR 0x0B, CHR 0x0C, CHR 0x0D])"

text \<open>
  The whitespace code points from 128 on (\<^verbatim>\<open>Py_UNICODE_ISSPACE\<close>), and the decimal digits of
  Unicode 14.0.0, the version of CPython 3.11: each of the 66 sets of digits is ten consecutive
  code points in the order of their values, listed by its zero (\<^verbatim>\<open>Py_UNICODE_TODECIMAL\<close>).
\<close>

definition unicode_space :: "nat \<Rightarrow> bool" where
  "unicode_space ch =
     (ch \<in> set [0x85, 0xA0, 0x1680, 0x2000, 0x2001, 0x2002, 0x2003, 0x2004, 0x2005, 0x2006,
                 0x2007, 0x2008, 0x2009, 0x200A, 0x2028, 0x2029, 0x202F, 0x205F, 0x3000])"

definition decimal_zeros :: "nat list" where
  "decimal_zeros =
     [0x30, 0x660, 0x6F0, 0x7C0, 0x966, 0x9E6, 0xA66, 0xAE6, 0xB66, 0xBE6, 0xC66, 0xCE6, 0xD66,
      0xDE6, 0xE50, 0xED0, 0xF20, 0x1040, 0x1090, 0x17E0, 0x1810, 0x1946, 0x19D0, 0x1A80,
      0x1A90, 0x1B50, 0x1BB0, 0x1C40, 0x1C50, 0xA620, 0xA8D0, 0xA900, 0xA9D0, 0xA9F0, 0xAA50,
      0xABF0, 0xFF10, 0x104A0, 0x10D30, 0x11066, 0x110F0, 0x11136, 0x111D0, 0x112F0, 0x11450,
      0x114D0, 0x11650, 0x116C0, 0x11730, 0x118E0, 0x11950, 0x11C50, 0x11D50, 0x11DA0,
      0x16A60, 0x16AC0, 0x16B50, 0x1D7CE, 0x1D7D8, 0x1D7E2, 0x1D7EC, 0x1D7F6, 0x1E140,
      0x1E2F0, 0x1E950, 0x1FBF0]"

definition to_decimal :: "nat \<Rightarrow> nat option" where
  "to_decimal ch =
     map_option (\<lambda>z. ch - z) (find (\<lambda>z. z \<le> ch \<and> ch < z + 10) decimal_zeros)"

text \<open>
  One step of \<^verbatim>\<open>_PyUnicode_TransformDecimalAndSpaceToASCII\<close> on a character from 127 on, given
  the output for the characters after it.
\<close>

definition transform :: "nat \<Rightarrow> string \<Rightarrow> string" where
  "transform ch out =
     (if unicode_space ch then CHR '' '' # out
      else (case to_decimal ch of None \<Rightarrow> ''?'' | Some d \<Rightarrow> digit_char d # out))"

text \<open>
  The loop of the transformation, on the UTF-8 bytes: a byte below 127 is a character that is
  kept; 127 is neither whitespace nor a digit; a lead byte and its continuation bytes give the
  code point of a longer character. Bytes that encode no string end the text as an unknown
  character does.
\<close>

fun to_ascii :: "string \<Rightarrow> string" where
  "to_ascii [] = []"
| "to_ascii (a # s) =
     (if of_char a < (127::nat) then a # to_ascii s
      else if of_char a < (192::nat) then ''?''
      else if of_char a < (224::nat) then
        (case s of
           b # r \<Rightarrow> transform ((of_char a - 192) * 64 + (of_char b - 128)) (to_ascii r)
         | _ \<Rightarrow> ''?'')
      else if of_char a < (240::nat) then
        (case s of
           b # c # r \<Rightarrow>
             transform (((of_char a - 224) * 64 + (of_char b - 128)) * 64 + (of_char c - 128))
               (to_ascii r)
         | _ \<Rightarrow> ''?'')
      else
        (case s of
           b # c # d # r \<Rightarrow>
             transform ((((of_char a - 240) * 64 + (of_char b - 128)) * 64 + (of_char c - 128)) * 64
                 + (of_char d - 128))
               (to_ascii r)
         | _ \<Rightarrow> ''?''))"

definition int_text :: "string \<Rightarrow> string" where
  "int_text s = (if list_all (\<lambda>c. of_char c < (128::nat)) s then s else to_ascii s)"

definition strip :: "string \<Rightarrow> string" where
  "strip s = rev (dropWhile is_space (rev (dropWhile is_space s)))"

text \<open>\<^verbatim>\<open>s.split(c)\<close> for a separator of one character: never the empty list.\<close>

fun split_on :: "char \<Rightarrow> string \<Rightarrow> string list" where
  "split_on c [] = [[]]"
| "split_on c (x # xs) =
     (if x = c then [] # split_on c xs
      else (case split_on c xs of [] \<Rightarrow> [[x]] | p # ps \<Rightarrow> (x # p) # ps))"

definition digits_value :: "string \<Rightarrow> int" where
  "digits_value ds = foldl (\<lambda>a c. 10 * a + digit_val c) 0 ds"

text \<open>The default of \<^verbatim>\<open>sys.get_int_max_str_digits()\<close>.\<close>

definition max_str_digits :: nat where
  "max_str_digits = 4300"

definition int_body :: "string \<Rightarrow> error + int" where
  "int_body b =
     (let groups = split_on CHR ''_'' b
      in if list_all (\<lambda>g. g \<noteq> [] \<and> list_all is_digit g) groups
            \<and> length (concat groups) \<le> max_str_digits
         then Inr (digits_value (concat groups)) else Inl ValueError)"

text \<open>\<^verbatim>\<open>PyLong_FromString\<close> in base 10, on the ASCII text.\<close>

definition parse_int :: "string \<Rightarrow> error + int" where
  "parse_int t =
     (case strip t of
        [] \<Rightarrow> Inl ValueError
      | c # r \<Rightarrow>
          if c = CHR ''+'' then int_body r
          else if c = CHR ''-'' then map_sum id uminus (int_body r)
          else int_body (c # r))"

definition int_of_str :: "string \<Rightarrow> error + int" where
  "int_of_str s = parse_int (int_text s)"

fun py_int :: "pyval \<Rightarrow> error + int" where
  "py_int PNone = Inl TypeError"
| "py_int (PStr s) = int_of_str s"
| "py_int (PInt i) = Inr i"

text \<open>
  What the specification calls a base-10 integer literal, and the integer it denotes:
  whitespace, an optional sign, one or more non-empty groups of digits joined by single
  underscores, whitespace; and no more digits than \<^verbatim>\<open>int\<close> converts. The value is the sum of
  the digits times their powers of ten.
\<close>

fun join_with :: "char \<Rightarrow> string list \<Rightarrow> string" where
  "join_with c [] = []"
| "join_with c [g] = g"
| "join_with c (g # h # gs) = g @ c # join_with c (h # gs)"

definition decimal_value :: "string \<Rightarrow> int" where
  "decimal_value ds = (\<Sum>i<length ds. digit_val (ds ! i) * 10 ^ (length ds - Suc i))"

definition decimal_literal :: "string \<Rightarrow> int \<Rightarrow> bool" where
  "decimal_literal t n =
     (\<exists>l sgn groups r.
        t = l @ sgn @ join_with CHR ''_'' groups @ r
        \<and> list_all is_space l \<and> list_all is_space r
        \<and> (sgn = [] \<or> sgn = ''+'' \<or> sgn = ''-'')
        \<and> groups \<noteq> [] \<and> list_all (\<lambda>g. g \<noteq> [] \<and> list_all is_digit g) groups
        \<and> length (concat groups) \<le> max_str_digits
        \<and> n = (if sgn = ''-'' then - decimal_value (concat groups)
                else decimal_value (concat groups)))"


section \<open>The canonical inventory record\<close>

text \<open>
  A row of the feed is a dictionary; the code reads three of its keys with \<^verbatim>\<open>watch.get\<close>:
  the code of the product, its price and its quantity (in the source the keys are the Russian
  words for code, price and quantity). A field of the record is what \<^verbatim>\<open>watch.get(key)\<close>
  returns, \<open>PNone\<close> where the key is absent.
\<close>

record watch =
  Kod :: pyval
  Cena :: pyval
  Kolichestvo :: pyval

section \<open>Price normalizer: \<^verbatim>\<open>price_conversion\<close>\<close>

text \<open>\<^verbatim>\<open>re.sub("[^0-9]", "", s)\<close>: every character outside \<^verbatim>\<open>0\<close>..\<^verbatim>\<open>9\<close> is deleted.\<close>

definition re_sub_non_digits :: "string \<Rightarrow> string" where
  "re_sub_non_digits s = filter is_digit s"

text \<open>
  \<^verbatim>\<open>return re.sub("[^0-9]", "", price.split(".")[0])\<close>. A value that is not a string has no
  \<^verbatim>\<open>split\<close>: \<^verbatim>\<open>AttributeError\<close>.
\<close>

fun price_conversion :: "pyval \<Rightarrow> error + string" where
  "price_conversion (PStr price) =
     (case split_on CHR ''.'' price of
        [] \<Rightarrow> Inl IndexError
      | p # ps \<Rightarrow> Inr (re_sub_non_digits p))"
| "price_conversion PNone = Inl AttributeError"
| "price_conversion (PInt i) = Inl AttributeError"

section \<open>Quantity normalizer\<close>

text \<open>
  The \<^verbatim>\<open>if count == ">10" ... elif count == "1" ... else\<close> block of both \<^verbatim>\<open>create_stocks\<close>:
  \<^verbatim>\<open>count\<close> is \<^verbatim>\<open>str\<close> of the quantity cell, and the last branch applies \<^verbatim>\<open>int\<close> to the cell
  itself.
\<close>

definition stock_of :: "pyval \<Rightarrow> error + int" where
  "stock_of quantity =
     (let count = py_str quantity
      in if count = ''>10'' then Inr 100
         else if count = ''1'' then Inr 0
         else py_int quantity)"

section \<open>Reconciliation, OZON channel (\<^verbatim>\<open>seller.py\<close>)\<close>

definition seller_stock :: "pyval \<Rightarrow> int \<Rightarrow> pyobj" where
  "seller_stock offer_id stock =
     PDict [(''offer_id'', Val offer_id), (''stock'', Val (PInt stock))]"

text \<open>
  The first loop of \<^verbatim>\<open>create_stocks\<close>. \<^verbatim>\<open>offer_ids\<close> is the list object of the caller:
  \<^verbatim>\<open>offer_ids.remove\<close> deletes the first element equal to the code, in place. The loop returns
  the stocks and the list as it has become; an exception of \<^verbatim>\<open>int\<close> ends it.
\<close>

fun seller_matched :: "watch list \<Rightarrow> pyobj list \<Rightarrow> pyval list \<Rightarrow> error + (pyobj list \<times> pyval list)" where
  "seller_matched [] stocks offer_ids = Inr (stocks, offer_ids)"
| "seller_matched (w # ws) stocks offer_ids =
     (if PStr (py_str (Kod w)) \<in> set offer_ids then
        (case stock_of (Kolichestvo w) of
           Inl e \<Rightarrow> Inl e
         | Inr stock \<Rightarrow>
             seller_matched ws (stocks @ [seller_stock (PStr (py_str (Kod w))) stock])
               (remove1 (PStr (py_str (Kod w))) offer_ids))
      else seller_matched ws stocks offer_ids)"

text \<open>
  \<^verbatim>\<open>create_stocks(watch_remnants, offer_ids)\<close>: the result is the returned list together with
  the caller's \<^verbatim>\<open>offer_ids\<close> after the call.
\<close>

definition seller_create_stocks :: "watch list \<Rightarrow> pyval list \<Rightarrow> error + (pyobj list \<times> pyval list)" where
  "seller_create_stocks watch_remnants offer_ids =
     (case seller_matched watch_remnants [] offer_ids of
        Inl e \<Rightarrow> Inl e
      | Inr (stocks, offer_ids') \<Rightarrow>
          Inr (stocks @ map (\<lambda>offer_id. seller_stock offer_id 0) offer_ids', offer_ids'))"

definition seller_price :: "string \<Rightarrow> string \<Rightarrow> pyobj" where
  "seller_price offer_id price =
     PDict [(''auto_action_enabled'', Val (PStr ''UNKNOWN'')),
            (''currency_code'', Val (PStr ''RUB'')),
            (''offer_id'', Val (PStr offer_id)),
            (''old_price'', Val (PStr ''0'')),
            (''price'', Val (PStr price))]"

fun seller_create_prices :: "watch list \<Rightarrow> pyval list \<Rightarrow> error + pyobj list" where
  "seller_create_prices [] offer_ids = Inr []"
| "seller_create_prices (w # ws) offer_ids =
     (if PStr (py_str (Kod w)) \<in> set offer_ids then
        (case price_conversion (Cena w) of
           Inl e \<Rightarrow> Inl e
         | Inr p \<Rightarrow> map_sum id ((#) (seller_price (py_str (Kod w)) p))
                     (seller_create_prices ws offer_ids))
      else seller_create_prices ws offer_ids)"

text \<open>
  The reconciliation part of \<^verbatim>\<open>main\<close> in \<^verbatim>\<open>seller.py\<close>, the network calls left out:
  \<^verbatim>\<open>create_stocks(watch_remnants, offer_ids)\<close> and then
  \<^verbatim>\<open>create_prices(watch_remnants, offer_ids)\<close> on the same list object.
\<close>

definition seller_main_payloads :: "watch list \<Rightarrow> pyval list \<Rightarrow> error + (pyobj list \<times> pyobj list)" where
  "seller_main_payloads watch_remnants offer_ids =
     (case seller_create_stocks watch_remnants offer_ids of
        Inl e \<Rightarrow> Inl e
      | Inr (stocks, offer_ids') \<Rightarrow>
          (case seller_create_prices watch_remnants offer_ids' of
             Inl e \<Rightarrow> Inl e
           | Inr prices \<Rightarrow> Inr (stocks, prices)))"

section \<open>Reconciliation, Yandex Market channel (\<^verbatim>\<open>market.py\<close>)\<close>

subsection \<open>The timestamp\<close>

text \<open>
  \<^verbatim>\<open>datetime.datetime.utcnow()\<close> reads the clock; the reading is an argument of the model. The
  value is a naive \<^verbatim>\<open>datetime\<close>, so \<^verbatim>\<open>isoformat()\<close> prints no offset, and it prints the
  microseconds only when they are not zero.
\<close>

record datetime =
  dt_year :: nat
  dt_month :: nat
  dt_day :: nat
  dt_hour :: nat
  dt_minute :: nat
  dt_second :: nat
  dt_microsecond :: nat

definition zpad :: "nat \<Rightarrow> nat \<Rightarrow> string" where
  "zpad w n = replicate (w - length (digits_of n)) CHR ''0'' @ digits_of n"

definition isoformat :: "datetime \<Rightarrow> string" where
  "isoformat d =
     zpad 4 (dt_year d) @ ''-'' @ zpad 2 (dt_month d) @ ''-'' @ zpad 2 (dt_day d) @ ''T'' @
     zpad 2 (dt_hour d) @ '':'' @ zpad 2 (dt_minute d) @ '':'' @ zpad 2 (dt_second d) @
     (if dt_microsecond d = 0 then [] else CHR ''.'' # zpad 6 (dt_microsecond d))"

text \<open>\<^verbatim>\<open>str(utcnow().replace(microsecond=0).isoformat() + "Z")\<close>\<close>

definition utc_date :: "datetime \<Rightarrow> string" where
  "utc_date now = isoformat (now\<lparr>dt_microsecond := 0\<rparr>) @ ''Z''"

text \<open>The values that a \<^verbatim>\<open>datetime\<close> can hold.\<close>

definition valid_datetime :: "datetime \<Rightarrow> bool" where
  "valid_datetime d =
     (1 \<le> dt_year d \<and> dt_year d \<le> 9999 \<and> 1 \<le> dt_month d \<and> dt_month d \<le> 12 \<and>
      1 \<le> dt_day d \<and> dt_day d \<le> 31 \<and> dt_hour d < 24 \<and> dt_minute d < 60 \<and>
      dt_second d < 60 \<and> dt_microsecond d < 1000000)"

subsection \<open>\<^verbatim>\<open>create_stocks\<close> and \<^verbatim>\<open>create_prices\<close>\<close>

definition market_stock :: "pyval \<Rightarrow> pyval \<Rightarrow> int \<Rightarrow> string \<Rightarrow> pyobj" where
  "market_stock sku warehouse_id stock date =
     PDict [(''sku'', Val sku),
            (''warehouseId'', Val warehouse_id),
            (''items'', PList [PDict [(''count'', Val (PInt stock)),
                                      (''type'', Val (PStr ''FIT'')),
                                      (''updatedAt'', Val (PStr date))]])]"

fun market_matched ::
  "watch list \<Rightarrow> pyval \<Rightarrow> string \<Rightarrow> pyobj list \<Rightarrow> pyval list \<Rightarrow> error + (pyobj list \<times> pyval list)" where
  "market_matched [] warehouse_id date stocks offer_ids = Inr (stocks, offer_ids)"
| "market_matched (w # ws) warehouse_id date stocks offer_ids =
     (if PStr (py_str (Kod w)) \<in> set offer_ids then
        (case stock_of (Kolichestvo w) of
           Inl e \<Rightarrow> Inl e
         | Inr stock \<Rightarrow>
             market_matched ws warehouse_id date
               (stocks @ [market_stock (PStr (py_str (Kod w))) warehouse_id stock date])
               (remove1 (PStr (py_str (Kod w))) offer_ids))
      else market_matched ws warehouse_id date stocks offer_ids)"

text \<open>
  \<^verbatim>\<open>create_stocks(watch_remnants, offer_ids, warehouse_id)\<close>, with the reading \<open>now\<close> of the
  clock; \<^verbatim>\<open>date\<close> is computed before the loops.
\<close>

definition market_create_stocks ::
  "watch list \<Rightarrow> pyval list \<Rightarrow> pyval \<Rightarrow> datetime \<Rightarrow> error + (pyobj list \<times> pyval list)" where
  "market_create_stocks watch_remnants offer_ids warehouse_id now =
     (let date = utc_date now
      in case market_matched watch_remnants warehouse_id date [] offer_ids of
           Inl e \<Rightarrow> Inl e
         | Inr (stocks, offer_ids') \<Rightarrow>
             Inr (stocks @ map (\<lambda>offer_id. market_stock offer_id warehouse_id 0 date) offer_ids',
                  offer_ids'))"

definition market_price :: "string \<Rightarrow> int \<Rightarrow> pyobj" where
  "market_price offer_id v =
     PDict [(''id'', Val (PStr offer_id)),
            (''price'', PDict [(''value'', Val (PInt v)),
                               (''currencyId'', Val (PStr ''RUR''))])]"

fun market_create_prices :: "watch list \<Rightarrow> pyval list \<Rightarrow> error + pyobj list" where
  "market_create_prices [] offer_ids = Inr []"
| "market_create_prices (w # ws) offer_ids =
     (if PStr (py_str (Kod w)) \<in> set offer_ids then
        (case price_conversion (Cena w) of
           Inl e \<Rightarrow> Inl e
         | Inr p \<Rightarrow>
             (case int_of_str p of
                Inl e \<Rightarrow> Inl e
              | Inr v \<Rightarrow> map_sum id ((#) (market_price (py_str (Kod w)) v))
                          (market_create_prices ws offer_ids)))
      else market_create_prices ws offer_ids)"

section \<open>Chunking: \<^verbatim>\<open>divide\<close>\<close>

text \<open>
  \<^verbatim>\<open>for i in range(0, len(lst), n): yield lst[i: i + n]\<close>, as the list that
  \<^verbatim>\<open>list(divide(lst, n))\<close> collects. \<^verbatim>\<open>range\<close> raises \<^verbatim>\<open>ValueError\<close> for a step of zero and is
  empty for a negative step.
\<close>

function divide_from :: "'a list \<Rightarrow> nat \<Rightarrow> nat \<Rightarrow> 'a list list" where
  "divide_from lst n i =
     (if 0 < n \<and> i < length lst then take n (drop i lst) # divide_from lst n (i + n) else [])"
  by pat_completeness auto
termination
  by (relation "measure (\<lambda>(lst, n, i). length lst - i)") auto

declare divide_from.simps [simp del]

definition divide :: "'a list \<Rightarrow> int \<Rightarrow> error + 'a list list" where
  "divide lst n =
     (if n = 0 then Inl ValueError
      else if n < 0 then Inr []
      else Inr (divide_from lst (nat n) 0))"

section \<open>Offer catalog enumeration: \<^verbatim>\<open>get_offer_ids\<close>\<close>










section \<open>Reading the payloads\<close>

text \<open>\<^verbatim>\<open>str(watch.get(code))\<close>: the value that both channels compare with the offer ids.\<close>

definition offer_key :: "watch \<Rightarrow> pyval" where
  "offer_key w = PStr (py_str (Kod w))"

text \<open>
  \<^verbatim>\<open>stock.get("items")[0].get("updatedAt")\<close> and \<^verbatim>\<open>stock.get("items")[0].get("count")\<close> on an
  entry of the Yandex Market stock payload (\<^verbatim>\<open>upload_stocks\<close> reads the count this way).
\<close>

definition first_item_field :: "pyobj \<Rightarrow> string \<Rightarrow> pyobj option" where
  "first_item_field stock k =
     (case field stock ''items'' of
        Some (PList (item # items)) \<Rightarrow> field item k
      | _ \<Rightarrow> None)"

section \<open>Properties of the price normalizer\<close>

lemma split_on_hd: "\<exists>ps. split_on c s = takeWhile (\<lambda>x. x \<noteq> c) s # ps"
  by (induction s) (auto split: list.splits)

lemma price_conversion_PStr:
  "price_conversion (PStr price) = Inr (filter is_digit (takeWhile (\<lambda>c. c \<noteq> CHR ''.'') price))"
proof -
  obtain ps where "split_on CHR ''.'' price = takeWhile (\<lambda>x. x \<noteq> CHR ''.'') price # ps"
    using split_on_hd by blast
  then show ?thesis by (simp add: re_sub_non_digits_def)
qed

lemma takeWhile_digits: "list_all is_digit s \<Longrightarrow> takeWhile (\<lambda>c. c \<noteq> CHR ''.'') s = s"
  by (induction s) (auto simp: is_digit_def)

lemma filter_digits: "list_all is_digit s \<Longrightarrow> filter is_digit s = s"
  by (induction s) auto

text \<open>
  Claim C4. For every price string, \<^verbatim>\<open>price_conversion\<close> keeps the part before the first
  \<^verbatim>\<open>.\<close> and deletes from it every character that is not an ASCII digit, so the result is a
  string of digits. The price \<^verbatim>\<open>22'990.00\<close> followed by the rouble label gives \<^verbatim>\<open>22990\<close>,
  \<^verbatim>\<open>5.50\<close> followed by the label gives \<^verbatim>\<open>5\<close> (the label is written as its UTF-8 bytes), and
  a string of digits alone is returned unchanged.
\<close>

theorem price_conversion_contract:
  "price_conversion (PStr price) = Inr (filter is_digit (takeWhile (\<lambda>c. c \<noteq> CHR ''.'') price))
   \<and> (\<forall>r. price_conversion (PStr price) = Inr r \<longrightarrow> list_all is_digit r)
   \<and> price_conversion (PStr (''22'990.00 '' @ [CHR 0xD1, CHR 0x80, CHR 0xD1, CHR 0x83, CHR 0xD0, CHR 0xB1] @ ''.'')) = Inr ''22990''
   \<and> price_conversion (PStr (''5.50 '' @ [CHR 0xD1, CHR 0x80, CHR 0xD1, CHR 0x83, CHR 0xD0, CHR 0xB1] @ ''.'')) = Inr ''5''
   \<and> (list_all is_digit price \<longrightarrow> price_conversion (PStr price) = Inr price)"
proof (intro conjI allI impI)
  show "price_conversion (PStr price) = Inr (filter is_digit (takeWhile (\<lambda>c. c \<noteq> CHR ''.'') price))"
    by (rule price_conversion_PStr)
next
  fix r assume "price_conversion (PStr price) = Inr r"
  then have "r = filter is_digit (takeWhile (\<lambda>c. c \<noteq> CHR ''.'') price)"
    by (simp only: price_conversion_PStr sum.inject)
  then show "list_all is_digit r"
    by (simp add: list_all_iff)
next
  show "price_conversion (PStr (''22'990.00 '' @ [CHR 0xD1, CHR 0x80, CHR 0xD1, CHR 0x83, CHR 0xD0, CHR 0xB1] @ ''.'')) = Inr ''22990''"
    by (simp add: re_sub_non_digits_def is_digit_def)
next
  show "price_conversion (PStr (''5.50 '' @ [CHR 0xD1, CHR 0x80, CHR 0xD1, CHR 0x83, CHR 0xD0, CHR 0xB1] @ ''.'')) = Inr ''5''"
    by (simp add: re_sub_non_digits_def is_digit_def)
next
  assume "list_all is_digit price"
  then show "price_conversion (PStr price) = Inr price"
    by (simp only: price_conversion_PStr takeWhile_digits filter_digits)
qed

theorem price_conversion_contract_witness:
  "list_all is_digit ''22990'' \<and> price_conversion (PStr ''22990'') = Inr ''22990''"
  using price_conversion_contract [of "''22990''"] by (simp add: is_digit_def)

section \<open>Properties of the quantity normalizer\<close>

lemmas int_eval = int_of_str_def int_text_def parse_int_def strip_def is_space_def int_body_def
  max_str_digits_def digits_value_def digit_val_def is_digit_def transform_def unicode_space_def
  to_decimal_def decimal_zeros_def digit_char_def

lemma int_of_str_examples:
  "int_of_str ''12'' = Inr 12"
  "int_of_str ''007'' = Inr 7"
  "int_of_str '' -1_000  '' = Inr (- 1000)"
  "int_of_str ''1__0'' = Inl ValueError"
  "int_of_str ''7_'' = Inl ValueError"
  "int_of_str ''- 7'' = Inl ValueError"
  "int_of_str ''abc'' = Inl ValueError"
  "int_of_str [] = Inl ValueError"
  "int_of_str [CHR 0x1F, CHR ''7''] = Inl ValueError"
  "int_of_str [CHR ''7'', CHR 0x7F] = Inl ValueError"
  "int_of_str [CHR ''5'', CHR 0xC2, CHR 0xA0] = Inr 5"
  "int_of_str [CHR 0xC2, CHR 0xA0, CHR ''7''] = Inr 7"
  "int_of_str [CHR 0x1F, CHR ''7'', CHR 0xC2, CHR 0xA0] = Inl ValueError"
  "int_of_str [CHR 0xD9, CHR 0xA3] = Inr 3"
  "int_of_str [CHR 0xD9, CHR 0xA3, CHR ''_'', CHR 0xD9, CHR 0xA3] = Inr 33"
  "int_of_str [CHR 0xEF, CHR 0xBC, CHR 0x97] = Inr 7"
  "int_of_str [CHR 0xF0, CHR 0x9D, CHR 0x9F, CHR 0x96] = Inr 8"
  "int_of_str [CHR ''1'', CHR 0xD1, CHR 0x80] = Inl ValueError"
  by (simp_all add: int_eval)


lemma int_body_error: "int_body b = Inl e \<Longrightarrow> e = ValueError"
  by (auto simp: int_body_def Let_def split: if_splits)

lemma parse_int_error: "parse_int t = Inl e \<Longrightarrow> e = ValueError"
  by (cases "int_body (tl (strip t))"; cases "int_body (strip t)")
     (auto simp: parse_int_def split: list.splits if_splits dest: int_body_error)

lemma int_of_str_error: "int_of_str s = Inl e \<Longrightarrow> e = ValueError"
  unfolding int_of_str_def by (rule parse_int_error)

lemma digits_value_snoc: "digits_value (ds @ [c]) = 10 * digits_value ds + digit_val c"
  by (simp add: digits_value_def)

lemma decimal_value_snoc: "decimal_value (ds @ [c]) = 10 * decimal_value ds + digit_val c"
proof -
  have "(\<Sum>i<length ds. digit_val ((ds @ [c]) ! i) * 10 ^ (length (ds @ [c]) - Suc i)) =
        (\<Sum>i<length ds. 10 * (digit_val (ds ! i) * 10 ^ (length ds - Suc i)))"
  proof (rule sum.cong)
    fix i assume "i \<in> {..<length ds}"
    then have i: "i < length ds" by simp
    then have "length (ds @ [c]) - Suc i = Suc (length ds - Suc i)" by simp
    then show "digit_val ((ds @ [c]) ! i) * 10 ^ (length (ds @ [c]) - Suc i) =
        10 * (digit_val (ds ! i) * 10 ^ (length ds - Suc i))"
      using i by (simp add: nth_append)
  qed simp
  then have "(\<Sum>i<length ds. digit_val ((ds @ [c]) ! i) * 10 ^ (length (ds @ [c]) - Suc i)) =
        10 * decimal_value ds"
    by (simp add: decimal_value_def sum_distrib_left)
  then show ?thesis
    by (simp add: decimal_value_def)
qed

lemma digits_value_decimal: "digits_value ds = decimal_value ds"
proof (induction ds rule: rev_induct)
  case Nil
  show ?case by (simp add: digits_value_def decimal_value_def)
next
  case (snoc c ds)
  then show ?case by (simp only: digits_value_snoc decimal_value_snoc)
qed

lemma split_on_nonempty: "split_on c s \<noteq> []"
  by (induction s) (auto split: list.splits)

lemma join_split: "join_with c (split_on c s) = s"
proof (induction s)
  case Nil
  show ?case by simp
next
  case (Cons x xs)
  obtain p ps where sp: "split_on c xs = p # ps"
    using split_on_nonempty [of c xs] by (cases "split_on c xs") auto
  show ?case
  proof (cases "x = c")
    case True
    with Cons sp show ?thesis by simp
  next
    case False
    with Cons sp show ?thesis by (cases ps) auto
  qed
qed

lemma split_on_absent: "c \<notin> set s \<Longrightarrow> split_on c s = [s]"
  by (induction s) auto

lemma split_on_append: "c \<notin> set g \<Longrightarrow> split_on c (g @ c # rest) = g # split_on c rest"
  by (induction g) auto

lemma split_join:
  "gs \<noteq> [] \<Longrightarrow> list_all (\<lambda>g. c \<notin> set g) gs \<Longrightarrow> split_on c (join_with c gs) = gs"
proof (induction c gs rule: join_with.induct)
  case (1 c)
  then show ?case by simp
next
  case (2 c g)
  then show ?case by (simp add: split_on_absent)
next
  case (3 c g h gs)
  then show ?case by (simp add: split_on_append)
qed

lemma digit_not_special:
  "is_digit c \<Longrightarrow> \<not> is_space c \<and> c \<noteq> CHR ''_'' \<and> c \<noteq> CHR ''+'' \<and> c \<noteq> CHR ''-''
     \<and> of_char c < (128::nat)"
  by (auto simp: is_digit_def is_space_def)

lemma join_digits:
  "gs \<noteq> [] \<Longrightarrow> list_all (\<lambda>g. g \<noteq> [] \<and> list_all is_digit g) gs \<Longrightarrow>
   join_with c gs \<noteq> [] \<and> is_digit (hd (join_with c gs)) \<and> is_digit (last (join_with c gs))"
proof (induction c gs rule: join_with.induct)
  case (1 c)
  then show ?case by simp
next
  case (2 c g)
  then have "g \<noteq> []" and "\<forall>x\<in>set g. is_digit x" by (simp_all add: list_all_iff)
  then show ?case using hd_in_set [of g] last_in_set [of g] by simp
next
  case (3 c g h gs)
  then have r: "join_with c (h # gs) \<noteq> []" and l: "is_digit (last (join_with c (h # gs)))"
    by simp_all
  from 3(3) obtain x xs where g: "g = x # xs" and x: "is_digit x" by (cases g) auto
  show ?case using r l g x by simp
qed

lemma int_body_Inr:
  "int_body b = Inr n \<longleftrightarrow>
     (\<exists>gs. gs \<noteq> [] \<and> b = join_with CHR ''_'' gs
        \<and> list_all (\<lambda>g. g \<noteq> [] \<and> list_all is_digit g) gs
        \<and> length (concat gs) \<le> max_str_digits \<and> n = decimal_value (concat gs))"
proof
  assume a: "int_body b = Inr n"
  let ?gs = "split_on CHR ''_'' b"
  from a have "list_all (\<lambda>g. g \<noteq> [] \<and> list_all is_digit g) ?gs"
    and "length (concat ?gs) \<le> max_str_digits" and "n = digits_value (concat ?gs)"
    by (auto simp: int_body_def Let_def split: if_splits)
  moreover have "?gs \<noteq> []" by (rule split_on_nonempty)
  moreover have "b = join_with CHR ''_'' ?gs" by (simp add: join_split)
  ultimately show "\<exists>gs. gs \<noteq> [] \<and> b = join_with CHR ''_'' gs
        \<and> list_all (\<lambda>g. g \<noteq> [] \<and> list_all is_digit g) gs
        \<and> length (concat gs) \<le> max_str_digits \<and> n = decimal_value (concat gs)"
    by (auto simp: digits_value_decimal)
next
  assume "\<exists>gs. gs \<noteq> [] \<and> b = join_with CHR ''_'' gs
        \<and> list_all (\<lambda>g. g \<noteq> [] \<and> list_all is_digit g) gs
        \<and> length (concat gs) \<le> max_str_digits \<and> n = decimal_value (concat gs)"
  then obtain gs where ne: "gs \<noteq> []" and b: "b = join_with CHR ''_'' gs"
    and ok: "list_all (\<lambda>g. g \<noteq> [] \<and> list_all is_digit g) gs"
    and len: "length (concat gs) \<le> max_str_digits" and n: "n = decimal_value (concat gs)"
    by blast
  from ok have "list_all (\<lambda>g. CHR ''_'' \<notin> set g) gs"
    by (auto simp: list_all_iff dest: digit_not_special)
  from split_join [OF ne this] have "split_on CHR ''_'' b = gs" by (simp add: b)
  then show "int_body b = Inr n"
    using ok len n by (simp add: int_body_def digits_value_decimal)
qed

lemma strip_sandwich:
  assumes "list_all is_space l" and "list_all is_space r" and "m \<noteq> []"
    and "\<not> is_space (hd m)" and "\<not> is_space (last m)"
  shows "strip (l @ m @ r) = m"
proof -
  have 1: "dropWhile is_space (l @ m @ r) = dropWhile is_space (m @ r)"
    using assms(1) by (simp add: dropWhile_append2 list_all_iff)
  have 2: "dropWhile is_space (m @ r) = m @ r"
    using assms(3,4) by (cases m) auto
  have 3: "dropWhile is_space (rev r @ rev m) = dropWhile is_space (rev m)"
    using assms(2) dropWhile_append2 [of "rev r" is_space "rev m"] by (simp add: list_all_iff)
  have "hd (rev m) = last m" using assms(3) by (simp add: hd_rev)
  then have "rev m = [] \<or> \<not> is_space (hd (rev m))" using assms(5) by simp
  then have 4: "dropWhile is_space (rev m) = rev m"
    by (simp only: dropWhile_eq_self_iff)
  show ?thesis by (simp add: strip_def 1 2 3 4)
qed

lemma strip_decomp:
  "\<exists>l r. t = l @ strip t @ r \<and> list_all is_space l \<and> list_all is_space r"
proof -
  let ?u = "dropWhile is_space t"
  let ?l = "takeWhile is_space t"
  let ?r = "rev (takeWhile is_space (rev ?u))"
  have "rev (takeWhile is_space (rev ?u) @ dropWhile is_space (rev ?u)) = rev (rev ?u)"
    by (simp only: takeWhile_dropWhile_id)
  then have "rev (dropWhile is_space (rev ?u)) @ ?r = ?u"
    by (simp only: rev_append rev_rev_ident)
  then have u: "?u = strip t @ ?r" unfolding strip_def by (rule sym)
  have "t = ?l @ ?u" by simp
  with u have "t = ?l @ strip t @ ?r" by simp
  moreover have "list_all is_space ?l"
    by (simp add: list_all_iff) (meson set_takeWhileD)
  moreover have "list_all is_space ?r"
    by (simp add: list_all_iff) (meson set_takeWhileD)
  ultimately show ?thesis by blast
qed


lemma parse_int_literal: "parse_int t = Inr n \<Longrightarrow> decimal_literal t n"
proof -
  assume a: "parse_int t = Inr n"
  obtain l r where t: "t = l @ strip t @ r" and l: "list_all is_space l" and r: "list_all is_space r"
    using strip_decomp by blast
  from a obtain c b where s: "strip t = c # b"
    by (cases "strip t") (auto simp: parse_int_def)
  have lit: "decimal_literal t k"
    if "int_body b' = Inr v" and "strip t = sgn @ b'"
      and "sgn = [] \<or> sgn = ''+'' \<or> sgn = ''-''"
      and "k = (if sgn = ''-'' then - v else v)" for b' v sgn k
  proof -
    from that(1) obtain gs where "gs \<noteq> []" and "b' = join_with CHR ''_'' gs"
      and "list_all (\<lambda>g. g \<noteq> [] \<and> list_all is_digit g) gs"
      and "length (concat gs) \<le> max_str_digits" and "v = decimal_value (concat gs)"
      unfolding int_body_Inr by blast
    moreover have "t = l @ sgn @ b' @ r" using t that(2) by simp
    ultimately show ?thesis
      unfolding decimal_literal_def using l r that(3,4) by blast
  qed
  show ?thesis
  proof (cases "c = CHR ''+''")
    case True
    with a s have "int_body b = Inr n" by (simp add: parse_int_def)
    from lit [OF this, of "''+''" n] s True show ?thesis by simp
  next
    case False
    show ?thesis
    proof (cases "c = CHR ''-''")
      case True
      with a s obtain v where v: "int_body b = Inr v" and n: "n = - v"
        by (cases "int_body b") (auto simp: parse_int_def)
      from lit [OF v, of "''-''" n] s True n show ?thesis by simp
    next
      case c: False
      with False a s have "int_body (c # b) = Inr n" by (simp add: parse_int_def)
      from lit [OF this, of "[]" n] s show ?thesis by simp
    qed
  qed
qed

lemma literal_parse_int: "decimal_literal t n \<Longrightarrow> parse_int t = Inr n"
proof -
  assume "decimal_literal t n"
  then obtain l sgn gs r where t: "t = l @ sgn @ join_with CHR ''_'' gs @ r"
    and l: "list_all is_space l" and r: "list_all is_space r"
    and sg: "sgn = [] \<or> sgn = ''+'' \<or> sgn = ''-''"
    and ne: "gs \<noteq> []" and ok: "list_all (\<lambda>g. g \<noteq> [] \<and> list_all is_digit g) gs"
    and len: "length (concat gs) \<le> max_str_digits"
    and n: "n = (if sgn = ''-'' then - decimal_value (concat gs) else decimal_value (concat gs))"
    unfolding decimal_literal_def by blast
  let ?b = "join_with CHR ''_'' gs"
  from join_digits [OF ne ok] have b: "?b \<noteq> []" and hb: "is_digit (hd ?b)" and lb: "is_digit (last ?b)"
    by simp_all
  have body: "int_body ?b = Inr (decimal_value (concat gs))"
    unfolding int_body_Inr using ne ok len by blast
  let ?m = "sgn @ ?b"
  have m: "?m \<noteq> []" using b by simp
  have hm: "\<not> is_space (hd ?m)"
    using sg hb digit_not_special [of "hd ?b"] by (auto simp: is_space_def)
  have lm: "\<not> is_space (last ?m)"
    using b lb digit_not_special [of "last ?b"] by simp
  have "t = l @ ?m @ r" using t by simp
  then have s: "strip t = ?m" using strip_sandwich [OF l r m hm lm] by simp
  from sg show ?thesis
  proof (elim disjE)
    assume e: "sgn = []"
    obtain c b' where cb: "?b = c # b'" using b by (cases ?b) auto
    with hb have "c \<noteq> CHR ''+''" "c \<noteq> CHR ''-''" using digit_not_special [of c] by auto
    then have "parse_int t = int_body (c # b')" using s e cb by (simp add: parse_int_def)
    then show ?thesis using body cb n e by simp
  next
    assume e: "sgn = ''+''"
    then have "parse_int t = int_body ?b" using s by (simp add: parse_int_def)
    then show ?thesis using body n e by simp
  next
    assume e: "sgn = ''-''"
    then have "parse_int t = map_sum id uminus (int_body ?b)" using s by (simp add: parse_int_def)
    then show ?thesis using body n e by simp
  qed
qed

lemma int_of_str_literal: "int_of_str q = Inr n \<longleftrightarrow> decimal_literal (int_text q) n"
  unfolding int_of_str_def using parse_int_literal literal_parse_int by blast

lemma int_of_str_fails: "int_of_str q = Inl ValueError \<longleftrightarrow> \<not> (\<exists>n. decimal_literal (int_text q) n)"
proof -
  have "int_of_str q = Inl ValueError \<longleftrightarrow> \<not> (\<exists>n. int_of_str q = Inr n)"
    using int_of_str_error [of q] by (cases "int_of_str q") auto
  then show ?thesis by (simp only: int_of_str_literal)
qed

lemma int_text_ascii: "list_all (\<lambda>c. of_char c < (128::nat)) q \<Longrightarrow> int_text q = q"
  by (simp add: int_text_def)

lemma int_of_str_digits:
  assumes "q \<noteq> []" and "list_all is_digit q" and "length q \<le> max_str_digits"
  shows "int_of_str q = Inr (digits_value q)"
proof -
  from assms(2) have "list_all (\<lambda>c. of_char c < (128::nat)) q"
    by (auto simp: list_all_iff dest: digit_not_special)
  then have t: "int_text q = q" by (rule int_text_ascii)
  have "q = [] @ [] @ join_with CHR ''_'' [q] @ []" by simp
  then have "decimal_literal q (decimal_value q)"
    unfolding decimal_literal_def using assms
    by (intro exI [of _ "[]"] exI [of _ "[q]"]) simp
  then show ?thesis
    by (simp add: int_of_str_literal t digits_value_decimal)
qed


lemma strip_no_space: "list_all (\<lambda>c. \<not> is_space c) s \<Longrightarrow> strip s = s"
proof (cases "s = []")
  case True
  then show ?thesis by (simp add: strip_def)
next
  case False
  assume a: "list_all (\<lambda>c. \<not> is_space c) s"
  with False have "\<not> is_space (hd s)" and "\<not> is_space (last s)"
    by (simp_all add: list_all_iff)
  from strip_sandwich [of "[]" "[]" s, OF _ _ False this] show ?thesis by simp
qed

lemma int_of_str_too_long:
  assumes "list_all is_digit q" and "max_str_digits < length q"
  shows "int_of_str q = Inl ValueError"
proof -
  from assms(2) obtain c r where q: "q = c # r" by (cases q) auto
  from assms(1) have "list_all (\<lambda>c. of_char c < (128::nat)) q"
    by (auto simp: list_all_iff dest: digit_not_special)
  then have t: "int_text q = q" by (rule int_text_ascii)
  from assms(1) have "list_all (\<lambda>c. \<not> is_space c) q"
    by (auto simp: list_all_iff dest: digit_not_special)
  then have s: "strip q = q" by (rule strip_no_space)
  from assms(1) have "CHR ''_'' \<notin> set q"
    by (auto simp: list_all_iff dest: digit_not_special)
  then have "split_on CHR ''_'' q = [q]" by (rule split_on_absent)
  then have b: "int_body q = Inl ValueError"
    using assms(2) by (simp add: int_body_def)
  from assms(1) q have "c \<noteq> CHR ''+''" "c \<noteq> CHR ''-''"
    using digit_not_special [of c] by auto
  then show ?thesis using b q s t by (simp add: int_of_str_def parse_int_def)
qed

text \<open>
  Claim C3. On a textual quantity the normalizer decides in this order: the exact string
  \<^verbatim>\<open>>10\<close> gives 100; the exact string \<^verbatim>\<open>1\<close> gives 0; any other string is handed to
  \<^verbatim>\<open>int\<close>, so \<^verbatim>\<open>7\<close> gives 7 and \<^verbatim>\<open>0\<close> gives 0. \<^verbatim>\<open>int\<close> returns \<open>n\<close> exactly when the text, brought
  to ASCII, is a base-10 integer literal denoting \<open>n\<close> (whitespace, an optional sign, groups of
  digits joined by single underscores, whitespace, no more than 4300 digits), and raises
  \<^verbatim>\<open>ValueError\<close> exactly when it is none; so the normalizer raises exactly when the string is
  neither sentinel and that parse fails. An ASCII string is read as it stands, and a string of
  digits gives its decimal value. The closed instances fix the reading of signs, underscores,
  blanks, non-ASCII whitespace and digits (written as UTF-8 bytes), and of a control character
  that is no whitespace.
\<close>

theorem quantity_normalization:
  "stock_of (PStr ''>10'') = Inr 100
   \<and> stock_of (PStr ''1'') = Inr 0
   \<and> stock_of (PStr ''7'') = Inr 7
   \<and> stock_of (PStr ''0'') = Inr 0
   \<and> (q \<noteq> ''>10'' \<and> q \<noteq> ''1'' \<longrightarrow> stock_of (PStr q) = int_of_str q)
   \<and> ((\<exists>e. stock_of (PStr q) = Inl e) \<longleftrightarrow> q \<noteq> ''>10'' \<and> q \<noteq> ''1'' \<and> int_of_str q = Inl ValueError)
   \<and> (int_of_str q = Inr n \<longleftrightarrow> decimal_literal (int_text q) n)
   \<and> (int_of_str q = Inl ValueError \<longleftrightarrow> \<not> (\<exists>k. decimal_literal (int_text q) k))
   \<and> (stock_of (PStr q) = Inr n \<longleftrightarrow>
        q = ''>10'' \<and> n = 100 \<or> q = ''1'' \<and> n = 0
        \<or> q \<noteq> ''>10'' \<and> q \<noteq> ''1'' \<and> decimal_literal (int_text q) n)
   \<and> (list_all (\<lambda>c. of_char c < (128::nat)) q \<longrightarrow> int_text q = q)
   \<and> (q \<noteq> [] \<and> list_all is_digit q \<and> q \<noteq> ''1'' \<and> length q \<le> max_str_digits \<longrightarrow>
        stock_of (PStr q) = Inr (decimal_value q))
   \<and> (list_all is_digit q \<and> max_str_digits < length q \<longrightarrow> stock_of (PStr q) = Inl ValueError)
   \<and> stock_of (PStr '' +1_0 '') = Inr 10
   \<and> stock_of (PStr '' 1'') = Inr 1
   \<and> stock_of (PStr [CHR ''5'', CHR 0xC2, CHR 0xA0]) = Inr 5
   \<and> stock_of (PStr [CHR 0xD9, CHR 0xA3]) = Inr 3
   \<and> stock_of (PStr [CHR 0x1F, CHR ''7'']) = Inl ValueError
   \<and> stock_of (PStr ''>10 '') = Inl ValueError"
proof (intro conjI)
  show "stock_of (PStr ''>10'') = Inr 100" by (simp add: stock_of_def)
  show "stock_of (PStr ''1'') = Inr 0" by (simp add: stock_of_def)
  show "stock_of (PStr ''7'') = Inr 7" by (simp add: stock_of_def int_eval)
  show "stock_of (PStr ''0'') = Inr 0" by (simp add: stock_of_def int_eval)
  show "q \<noteq> ''>10'' \<and> q \<noteq> ''1'' \<longrightarrow> stock_of (PStr q) = int_of_str q"
    by (simp add: stock_of_def)
  show "(\<exists>e. stock_of (PStr q) = Inl e) \<longleftrightarrow> q \<noteq> ''>10'' \<and> q \<noteq> ''1'' \<and> int_of_str q = Inl ValueError"
    by (auto simp: stock_of_def dest: int_of_str_error)
  show "int_of_str q = Inr n \<longleftrightarrow> decimal_literal (int_text q) n"
    by (rule int_of_str_literal)
  show "int_of_str q = Inl ValueError \<longleftrightarrow> \<not> (\<exists>k. decimal_literal (int_text q) k)"
    by (rule int_of_str_fails)
  show "stock_of (PStr q) = Inr n \<longleftrightarrow>
        q = ''>10'' \<and> n = 100 \<or> q = ''1'' \<and> n = 0
        \<or> q \<noteq> ''>10'' \<and> q \<noteq> ''1'' \<and> decimal_literal (int_text q) n"
    using int_of_str_literal [of q n] by (auto simp: stock_of_def)
  show "list_all (\<lambda>c. of_char c < (128::nat)) q \<longrightarrow> int_text q = q"
    by (simp add: int_text_ascii)
  show "q \<noteq> [] \<and> list_all is_digit q \<and> q \<noteq> ''1'' \<and> length q \<le> max_str_digits \<longrightarrow>
        stock_of (PStr q) = Inr (decimal_value q)"
  proof
    assume a: "q \<noteq> [] \<and> list_all is_digit q \<and> q \<noteq> ''1'' \<and> length q \<le> max_str_digits"
    then have "q \<noteq> ''>10''" by (auto simp: is_digit_def)
    with a show "stock_of (PStr q) = Inr (decimal_value q)"
      by (simp add: stock_of_def int_of_str_digits digits_value_decimal)
  qed
  show "list_all is_digit q \<and> max_str_digits < length q \<longrightarrow> stock_of (PStr q) = Inl ValueError"
  proof
    assume a: "list_all is_digit q \<and> max_str_digits < length q"
    then have "q \<noteq> ''>10''" "q \<noteq> ''1''" by (auto simp: max_str_digits_def)
    with a show "stock_of (PStr q) = Inl ValueError"
      by (simp add: stock_of_def int_of_str_too_long)
  qed
  show "stock_of (PStr '' +1_0 '') = Inr 10" by (simp add: stock_of_def int_eval)
  show "stock_of (PStr '' 1'') = Inr 1" by (simp add: stock_of_def int_eval)
  show "stock_of (PStr [CHR ''5'', CHR 0xC2, CHR 0xA0]) = Inr 5" by (simp add: stock_of_def int_eval)
  show "stock_of (PStr [CHR 0xD9, CHR 0xA3]) = Inr 3" by (simp add: stock_of_def int_eval)
  show "stock_of (PStr [CHR 0x1F, CHR ''7'']) = Inl ValueError" by (simp add: stock_of_def int_eval)
  show "stock_of (PStr ''>10 '') = Inl ValueError" by (simp add: stock_of_def int_eval)
qed

theorem quantity_normalization_witness:
  "''12'' \<noteq> ''>10'' \<and> ''12'' \<noteq> ''1'' \<and> ''12'' \<noteq> [] \<and> list_all is_digit ''12''
   \<and> list_all (\<lambda>c. of_char c < (128::nat)) ''12'' \<and> length ''12'' \<le> max_str_digits
   \<and> stock_of (PStr ''12'') = int_of_str ''12'' \<and> stock_of (PStr ''12'') = Inr 12
   \<and> decimal_literal ''12'' 12 \<and> decimal_value ''12'' = 12"
proof -
  have e: "int_of_str ''12'' = Inr 12" by (simp add: int_eval)
  have h: "''12'' \<noteq> ''>10'' \<and> ''12'' \<noteq> ''1'' \<and> ''12'' \<noteq> [] \<and> list_all is_digit ''12''
      \<and> list_all (\<lambda>c. of_char c < (128::nat)) ''12'' \<and> length ''12'' \<le> max_str_digits"
    by (simp add: is_digit_def max_str_digits_def)
  from quantity_normalization [of "''12''" 12] e h
  have "stock_of (PStr ''12'') = int_of_str ''12''" and "int_text ''12'' = ''12''"
    and "decimal_literal (int_text ''12'') 12" and "stock_of (PStr ''12'') = Inr (decimal_value ''12'')"
    by blast+
  then show ?thesis using e h by simp
qed

section \<open>Properties of \<^verbatim>\<open>divide\<close>\<close>

lemma divide_from_concat: "0 < n \<Longrightarrow> concat (divide_from lst n i) = drop i lst"
proof (induction lst n i rule: divide_from.induct)
  case (1 lst n i)
  show ?case
  proof (cases "i < length lst")
    case True
    have "drop i lst = take n (drop i lst) @ drop n (drop i lst)"
      by (rule append_take_drop_id [symmetric])
    also have "drop n (drop i lst) = drop (i + n) lst" by (simp add: add.commute)
    finally show ?thesis using 1 True by (subst divide_from.simps) simp
  next
    case False
    then show ?thesis by (subst divide_from.simps) simp
  qed
qed

lemma divide_from_length:
  "0 < n \<Longrightarrow> length (divide_from lst n i) = (length lst - i + n - 1) div n"
proof (induction lst n i rule: divide_from.induct)
  case (1 lst n i)
  show ?case
  proof (cases "i < length lst")
    case True
    then have "length lst - i + n - 1 = (length lst - (i + n) + n - 1) + n \<or> length lst - i \<le> n"
      by arith
    then show ?thesis
    proof
      assume e: "length lst - i + n - 1 = (length lst - (i + n) + n - 1) + n"
      have "length (divide_from lst n i) = Suc (length (divide_from lst n (i + n)))"
        using True 1(2) by (subst divide_from.simps) simp
      also have "\<dots> = Suc ((length lst - (i + n) + n - 1) div n)"
        using 1 True by simp
      also have "\<dots> = (length lst - i + n - 1) div n"
      proof -
        define a where "a = length lst - (i + n) + n - 1"
        have "Suc (a div n) = (a + n) div n" using 1(2) div_add_self2 [of n a] by simp
        then show ?thesis unfolding a_def e .
      qed
      finally show ?thesis .
    next
      assume le: "length lst - i \<le> n"
      then have z: "length lst \<le> i + n" by arith
      have "length (divide_from lst n i) = Suc (length (divide_from lst n (i + n)))"
        using True 1(2) by (subst divide_from.simps) simp
      also have "length (divide_from lst n (i + n)) = 0"
        using z by (subst divide_from.simps) simp
      also have "Suc 0 = (length lst - i + n - 1) div n"
      proof -
        have "n \<le> length lst - i + n - 1" "length lst - i + n - 1 < 2 * n"
          using True le 1(2) by arith+
        then have "(length lst - i + n - 1) div n = 1"
          by (metis One_nat_def div_nat_eqI mult.commute mult_2 nat_mult_1_right plus_1_eq_Suc mult_Suc_right)
        then show ?thesis by simp
      qed
      finally show ?thesis .
    qed
  next
    case False
    then have "length lst - i + n - 1 < n" using 1(2) by arith
    then show ?thesis using False by (subst divide_from.simps) simp
  qed
qed

lemma divide_from_nth:
  "0 < n \<Longrightarrow> k < length (divide_from lst n i) \<Longrightarrow>
   divide_from lst n i ! k = take n (drop (i + k * n) lst)"
proof (induction lst n i arbitrary: k rule: divide_from.induct)
  case (1 lst n i)
  show ?case
  proof (cases "i < length lst")
    case True
    then have eq: "divide_from lst n i = take n (drop i lst) # divide_from lst n (i + n)"
      using 1(2) by (subst divide_from.simps) simp
    show ?thesis
    proof (cases k)
      case 0
      then show ?thesis by (simp add: eq)
    next
      case (Suc j)
      with 1(3) eq have "j < length (divide_from lst n (i + n))" by simp
      then have "divide_from lst n (i + n) ! j = take n (drop (i + n + j * n) lst)"
        using 1(1) True 1(2) by simp
      then show ?thesis using Suc eq by (simp add: add.assoc)
    qed
  next
    case False
    then have "divide_from lst n i = []" by (subst divide_from.simps) simp
    with 1(3) show ?thesis by simp
  qed
qed


lemma ceil_div_nat:
  assumes "0 < (n::nat)"
  shows "\<lceil>real m / real n\<rceil> = int ((m + n - 1) div n)"
proof (rule ceiling_unique)
  define q where "q = (m + n - 1) div n"
  have lo: "q * n \<le> m + n - 1" unfolding q_def by simp
  have "m + n - 1 < n * Suc q" unfolding q_def using assms
    by (metis dividend_less_times_div add.commute mult_Suc_right)
  then have hi: "m \<le> q * n" using assms by (simp add: mult.commute) 
  from lo assms have lo': "q * n < m + n" by arith
  show "real m / real n \<le> of_int (int ((m + n - 1) div n))"
  proof -
    have "real m \<le> real q * real n" using hi by (metis of_nat_le_iff of_nat_mult)
    then have "real m / real n \<le> real q" using assms by (simp add: pos_divide_le_eq)
    then show ?thesis by (simp add: q_def)
  qed
  show "of_int (int ((m + n - 1) div n)) - 1 < real m / real n"
  proof -
    have "real q * real n < real m + real n" using lo' by (metis of_nat_less_iff of_nat_mult of_nat_add)
    then have "(real q - 1) * real n < real m" by (simp add: algebra_simps)
    then have "real q - 1 < real m / real n" using assms by (simp add: pos_less_divide_eq)
    then show ?thesis by (simp add: q_def)
  qed
qed

lemma chunk_count_multiple: "0 < (n::nat) \<Longrightarrow> (m * n + n - 1) div n = m"
  by (rule div_nat_eqI) (auto simp: algebra_simps)

lemma full_chunk:
  assumes "0 < (n::nat)" and "Suc k < (len + n - 1) div n"
  shows "k * n + n \<le> len"
proof -
  from assms have "Suc (Suc k) \<le> (len + n - 1) div n" by simp
  then have "Suc (Suc k) * n \<le> len + n - 1" using assms(1)
    by (simp only: less_eq_div_iff_mult_less_eq)
  then show ?thesis using assms(1) by simp
qed

lemma nonempty_chunk:
  assumes "0 < (n::nat)" and "k < (len + n - 1) div n"
  shows "k * n < len"
proof -
  from assms have "Suc k \<le> (len + n - 1) div n" by simp
  then have "Suc k * n \<le> len + n - 1" using assms(1)
    by (simp only: less_eq_div_iff_mult_less_eq)
  then show ?thesis using assms(1) by simp
qed

text \<open>
  Claim C7. For every list and every chunk size \<open>n \<ge> 1\<close>, \<^verbatim>\<open>divide(lst, n)\<close> yields
  \<open>\<lceil>len(lst) / n\<rceil>\<close> chunks; chunk \<open>k\<close> is the slice of \<open>n\<close> elements starting at \<open>k * n\<close>, so
  the chunks are contiguous and in the original order; every chunk but the last has length
  \<open>n\<close>, the last has between 1 and \<open>n\<close> elements, and all have length \<open>n\<close> when \<open>n\<close> divides the
  length; the empty list yields no chunk; and the concatenation of the chunks is the list.
\<close>

theorem divide_chunks:
  assumes "1 \<le> n"
  shows "\<exists>chunks. divide lst n = Inr chunks
     \<and> int (length chunks) = \<lceil>real (length lst) / real_of_int n\<rceil>
     \<and> concat chunks = lst
     \<and> (\<forall>k. k < length chunks \<longrightarrow> chunks ! k = take (nat n) (drop (k * nat n) lst))
     \<and> (\<forall>k. Suc k < length chunks \<longrightarrow> length (chunks ! k) = nat n)
     \<and> (\<forall>k. k < length chunks \<longrightarrow> 1 \<le> length (chunks ! k) \<and> length (chunks ! k) \<le> nat n)
     \<and> (int (length lst) mod n = 0 \<longrightarrow> (\<forall>k. k < length chunks \<longrightarrow> length (chunks ! k) = nat n))
     \<and> (lst = [] \<longrightarrow> chunks = [])"
proof -
  define m where "m = nat n"
  have m: "0 < m" and n: "n = int m" using assms by (simp_all add: m_def)
  define chunks where "chunks = divide_from lst m 0"
  have d: "divide lst n = Inr chunks"
    using assms by (simp add: divide_def chunks_def m_def)
  have len: "length chunks = (length lst + m - 1) div m"
    using divide_from_length [OF m, of lst 0] by (simp add: chunks_def)
  have nth: "chunks ! k = take m (drop (k * m) lst)" if "k < length chunks" for k
    using divide_from_nth [OF m, of k lst 0] that by (simp add: chunks_def)
  have c1: "int (length chunks) = \<lceil>real (length lst) / real_of_int n\<rceil>"
    using ceil_div_nat [OF m, of "length lst"] by (simp add: len n)
  have c2: "concat chunks = lst"
    using divide_from_concat [OF m, of lst 0] by (simp add: chunks_def)
  have c3: "length (chunks ! k) = m" if "Suc k < length chunks" for k
  proof -
    from that have "k * m + m \<le> length lst" using full_chunk [OF m] by (simp add: len)
    moreover have "k < length chunks" using that by simp
    ultimately show ?thesis by (simp add: nth)
  qed
  have c4: "1 \<le> length (chunks ! k) \<and> length (chunks ! k) \<le> m" if "k < length chunks" for k
  proof -
    from that have "k * m < length lst" using nonempty_chunk [OF m] by (simp add: len)
    then show ?thesis using that m by (simp add: nth)
  qed
  have c5: "length (chunks ! k) = m" if "int (length lst) mod n = 0" and "k < length chunks" for k
  proof -
    from that(1) have "length lst mod m = 0" unfolding n
      by (metis of_nat_mod of_nat_eq_0_iff)
    then have "m dvd length lst" by (simp add: mod_eq_0_iff_dvd)
    then obtain j where j: "length lst = j * m"
      by (auto simp: dvd_def mult.commute)
    then have "length chunks = j" using chunk_count_multiple [OF m] by (simp add: len)
    with that(2) have "Suc k \<le> j" by simp
    then have "Suc k * m \<le> j * m" by (rule mult_le_mono1)
    then have "k * m + m \<le> length lst" by (simp add: j)
    then show ?thesis using that(2) by (simp add: nth)
  qed
  have c6: "chunks = []" if "lst = []"
    using that len m by simp
  show ?thesis
    using d c1 c2 nth c3 c4 c5 c6 unfolding m_def by blast
qed

lemma divide_example:
  "divide [1, 2, 3, 4, 5, 6, 7, 8, 9, 10 :: int] 3 = Inr [[1, 2, 3], [4, 5, 6], [7, 8, 9], [10]]"
  "divide ([] :: int list) n = (if n = 0 then Inl ValueError else Inr [])"
  "divide [1, 2, 3, 4, 5, 6 :: int] 3 = Inr [[1, 2, 3], [4, 5, 6]]"
  by (simp_all add: divide_def divide_from.simps)

theorem divide_chunks_witness:
  "(1::int) \<le> 3 \<and> (\<exists>chunks. divide [1, 2, 3, 4, 5, 6, 7, 8, 9, 10 :: int] 3 = Inr chunks \<and> int (length chunks) = 4
     \<and> concat chunks = [1, 2, 3, 4, 5, 6, 7, 8, 9, 10])"
proof -
  have h: "(1::int) \<le> 3" by simp
  have c: "\<lceil>real (length [1, 2, 3, 4, 5, 6, 7, 8, 9, 10 :: int]) / real_of_int 3\<rceil> = 4"
    by (simp add: ceiling_eq_iff)
  show ?thesis
    using divide_chunks [OF h, of "[1, 2, 3, 4, 5, 6, 7, 8, 9, 10 :: int]"] h unfolding c by blast
qed

section \<open>Properties of \<^verbatim>\<open>create_stocks\<close>\<close>

lemma seller_matched_mset:
  "seller_matched ws stocks ids = Inr (stocks', ids') \<Longrightarrow>
   mset (map (\<lambda>s. field s ''offer_id'') stocks') + mset (map (\<lambda>i. Some (Val i)) ids') =
   mset (map (\<lambda>s. field s ''offer_id'') stocks) + mset (map (\<lambda>i. Some (Val i)) ids)"
proof (induction ws arbitrary: stocks ids)
  case Nil
  then show ?case by simp
next
  case (Cons w ws)
  let ?k = "PStr (py_str (Kod w))"
  show ?case
  proof (cases "?k \<in> set ids")
    case False
    with Cons show ?thesis by simp
  next
    case True
    with Cons.prems obtain stock where st: "stock_of (Kolichestvo w) = Inr stock"
      and rec: "seller_matched ws (stocks @ [seller_stock ?k stock]) (remove1 ?k ids) = Inr (stocks', ids')"
      by (auto split: sum.splits)
    have "mset ids = add_mset ?k (mset (remove1 ?k ids))"
      using True by simp
    then have "mset (map (\<lambda>i. Some (Val i)) ids) =
        add_mset (Some (Val ?k)) (mset (map (\<lambda>i. Some (Val i)) (remove1 ?k ids)))"
      by (metis image_mset_add_mset mset_map)
    moreover have "field (seller_stock ?k stock) ''offer_id'' = Some (Val ?k)"
      by (simp add: seller_stock_def)
    ultimately show ?thesis using Cons.IH [OF rec] by simp
  qed
qed

lemma seller_create_stocks_mset:
  assumes "seller_create_stocks ws ids = Inr (stocks, ids')"
  shows "mset (map (\<lambda>s. field s ''offer_id'') stocks) = mset (map (\<lambda>i. Some (Val i)) ids)"
proof -
  from assms obtain st where m: "seller_matched ws [] ids = Inr (st, ids')"
    and s: "stocks = st @ map (\<lambda>offer_id. seller_stock offer_id 0) ids'"
    by (auto simp: seller_create_stocks_def split: sum.splits)
  have k: "map (\<lambda>s. field s ''offer_id'') stocks =
        map (\<lambda>s. field s ''offer_id'') st @ map (\<lambda>i. Some (Val i)) ids'"
    by (simp add: s seller_stock_def)
  show ?thesis unfolding k using seller_matched_mset [OF m] by simp
qed


lemma seller_matched_total:
  "(\<forall>w\<in>set ws. \<exists>n. stock_of (Kolichestvo w) = Inr n) \<Longrightarrow>
   \<exists>r. seller_matched ws stocks ids = Inr r"
proof (induction ws arbitrary: stocks ids)
  case Nil
  then show ?case by simp
next
  case (Cons w ws)
  then obtain n where "stock_of (Kolichestvo w) = Inr n" by auto
  moreover have "\<exists>r. seller_matched ws st i = Inr r" for st i
    using Cons by simp
  ultimately show ?case by simp
qed

lemma seller_matched_remaining:
  "seller_matched ws stocks ids = Inr (stocks', ids') \<Longrightarrow> distinct ids \<Longrightarrow>
   distinct ids' \<and> set ids' = set ids - offer_key ` set ws"
proof (induction ws arbitrary: stocks ids)
  case Nil
  then show ?case by simp
next
  case (Cons w ws)
  show ?case
  proof (cases "PStr (py_str (Kod w)) \<in> set ids")
    case False
    with Cons.prems have "seller_matched ws stocks ids = Inr (stocks', ids')" by simp
    from Cons.IH [OF this Cons.prems(2)] False show ?thesis
      by (auto simp: offer_key_def)
  next
    case True
    with Cons.prems obtain stock where
      rec: "seller_matched ws (stocks @ [seller_stock (PStr (py_str (Kod w))) stock])
              (remove1 (PStr (py_str (Kod w))) ids) = Inr (stocks', ids')"
      by (auto split: sum.splits)
    have d: "distinct (remove1 (PStr (py_str (Kod w))) ids)"
      using Cons.prems(2) by simp
    have s: "set (remove1 (PStr (py_str (Kod w))) ids) = set ids - {PStr (py_str (Kod w))}"
      using Cons.prems(2) by simp
    from Cons.IH [OF rec d] s show ?thesis
      by (auto simp: offer_key_def)
  qed
qed

lemma seller_matched_append:
  "seller_matched (pre @ rest) stocks ids =
     (case seller_matched pre stocks ids of
        Inl e \<Rightarrow> Inl e
      | Inr (s, i) \<Rightarrow> seller_matched rest s i)"
  by (induction pre arbitrary: stocks ids) (auto split: sum.splits)

lemma seller_matched_keeps:
  "seller_matched pre stocks ids = Inr (stocks', ids') \<Longrightarrow> x \<in> set ids \<Longrightarrow>
   x \<notin> offer_key ` set pre \<Longrightarrow> x \<in> set ids'"
proof (induction pre arbitrary: stocks ids)
  case Nil
  then show ?case by simp
next
  case (Cons w ws)
  from Cons.prems(3) have ne: "x \<noteq> PStr (py_str (Kod w))" and nin: "x \<notin> offer_key ` set ws"
    by (auto simp: offer_key_def)
  show ?case
  proof (cases "PStr (py_str (Kod w)) \<in> set ids")
    case False
    with Cons.prems have "seller_matched ws stocks ids = Inr (stocks', ids')" by simp
    from Cons.IH [OF this Cons.prems(2) nin] show ?thesis .
  next
    case True
    with Cons.prems obtain stock where
      rec: "seller_matched ws (stocks @ [seller_stock (PStr (py_str (Kod w))) stock])
              (remove1 (PStr (py_str (Kod w))) ids) = Inr (stocks', ids')"
      by (auto split: sum.splits)
    have "x \<in> set (remove1 (PStr (py_str (Kod w))) ids)"
      using Cons.prems(2) ne by (simp add: in_set_remove1)
    from Cons.IH [OF rec this nin] show ?thesis .
  qed
qed

lemma seller_matched_fails:
  assumes "offer_key w \<in> set ids" and "offer_key w \<notin> offer_key ` set pre"
    and "stock_of (Kolichestvo w) = Inl e"
  shows "\<exists>e'. seller_matched (pre @ w # post) stocks ids = Inl e'"
    and "seller_matched pre stocks ids = Inr r \<Longrightarrow> seller_matched (pre @ w # post) stocks ids = Inl e"
proof -
  show "\<exists>e'. seller_matched (pre @ w # post) stocks ids = Inl e'"
  proof (cases "seller_matched pre stocks ids")
    case (Inl a)
    then show ?thesis by (simp add: seller_matched_append)
  next
    case (Inr r)
    obtain s i where r: "r = (s, i)" by (cases r)
    with Inr assms(1,2) have "offer_key w \<in> set i" using seller_matched_keeps by blast
    then show ?thesis using Inr r assms(3)
      by (simp add: seller_matched_append offer_key_def)
  qed
  show "seller_matched (pre @ w # post) stocks ids = Inl e" if p: "seller_matched pre stocks ids = Inr r"
  proof -
    obtain s i where r: "r = (s, i)" by (cases r)
    with p assms(1,2) have "offer_key w \<in> set i" using seller_matched_keeps by blast
    then show ?thesis using p r assms(3)
      by (simp add: seller_matched_append offer_key_def)
  qed
qed

lemma market_matched_mset:
  "market_matched ws wid date stocks ids = Inr (stocks', ids') \<Longrightarrow>
   mset (map (\<lambda>s. field s ''sku'') stocks') + mset (map (\<lambda>i. Some (Val i)) ids') =
   mset (map (\<lambda>s. field s ''sku'') stocks) + mset (map (\<lambda>i. Some (Val i)) ids)"
proof (induction ws arbitrary: stocks ids)
  case Nil
  then show ?case by simp
next
  case (Cons w ws)
  let ?k = "PStr (py_str (Kod w))"
  show ?case
  proof (cases "?k \<in> set ids")
    case False
    with Cons show ?thesis by simp
  next
    case True
    with Cons.prems obtain stock where st: "stock_of (Kolichestvo w) = Inr stock"
      and rec: "market_matched ws wid date (stocks @ [market_stock ?k wid stock date]) (remove1 ?k ids) = Inr (stocks', ids')"
      by (auto split: sum.splits)
    have "mset ids = add_mset ?k (mset (remove1 ?k ids))"
      using True by simp
    then have "mset (map (\<lambda>i. Some (Val i)) ids) =
        add_mset (Some (Val ?k)) (mset (map (\<lambda>i. Some (Val i)) (remove1 ?k ids)))"
      by (metis image_mset_add_mset mset_map)
    moreover have "field (market_stock ?k wid stock date) ''sku'' = Some (Val ?k)"
      by (simp add: market_stock_def)
    ultimately show ?thesis using Cons.IH [OF rec] by simp
  qed
qed

lemma market_matched_total:
  "(\<forall>w\<in>set ws. \<exists>n. stock_of (Kolichestvo w) = Inr n) \<Longrightarrow>
   \<exists>r. market_matched ws wid date stocks ids = Inr r"
proof (induction ws arbitrary: stocks ids)
  case Nil
  then show ?case by simp
next
  case (Cons w ws)
  then obtain n where "stock_of (Kolichestvo w) = Inr n" by auto
  moreover have "\<exists>r. market_matched ws wid date st i = Inr r" for st i
    using Cons by simp
  ultimately show ?case by simp
qed

lemma market_matched_remaining:
  "market_matched ws wid date stocks ids = Inr (stocks', ids') \<Longrightarrow> distinct ids \<Longrightarrow>
   distinct ids' \<and> set ids' = set ids - offer_key ` set ws"
proof (induction ws arbitrary: stocks ids)
  case Nil
  then show ?case by simp
next
  case (Cons w ws)
  show ?case
  proof (cases "PStr (py_str (Kod w)) \<in> set ids")
    case False
    with Cons.prems have "market_matched ws wid date stocks ids = Inr (stocks', ids')" by simp
    from Cons.IH [OF this Cons.prems(2)] False show ?thesis
      by (auto simp: offer_key_def)
  next
    case True
    with Cons.prems obtain stock where
      rec: "market_matched ws wid date (stocks @ [market_stock (PStr (py_str (Kod w))) wid stock date])
              (remove1 (PStr (py_str (Kod w))) ids) = Inr (stocks', ids')"
      by (auto split: sum.splits)
    have d: "distinct (remove1 (PStr (py_str (Kod w))) ids)"
      using Cons.prems(2) by simp
    have s: "set (remove1 (PStr (py_str (Kod w))) ids) = set ids - {PStr (py_str (Kod w))}"
      using Cons.prems(2) by simp
    from Cons.IH [OF rec d] s show ?thesis
      by (auto simp: offer_key_def)
  qed
qed

lemma market_matched_append:
  "market_matched (pre @ rest) wid date stocks ids =
     (case market_matched pre wid date stocks ids of
        Inl e \<Rightarrow> Inl e
      | Inr (s, i) \<Rightarrow> market_matched rest wid date s i)"
  by (induction pre arbitrary: stocks ids) (auto split: sum.splits)

lemma market_matched_keeps:
  "market_matched pre wid date stocks ids = Inr (stocks', ids') \<Longrightarrow> x \<in> set ids \<Longrightarrow>
   x \<notin> offer_key ` set pre \<Longrightarrow> x \<in> set ids'"
proof (induction pre arbitrary: stocks ids)
  case Nil
  then show ?case by simp
next
  case (Cons w ws)
  from Cons.prems(3) have ne: "x \<noteq> PStr (py_str (Kod w))" and nin: "x \<notin> offer_key ` set ws"
    by (auto simp: offer_key_def)
  show ?case
  proof (cases "PStr (py_str (Kod w)) \<in> set ids")
    case False
    with Cons.prems have "market_matched ws wid date stocks ids = Inr (stocks', ids')" by simp
    from Cons.IH [OF this Cons.prems(2) nin] show ?thesis .
  next
    case True
    with Cons.prems obtain stock where
      rec: "market_matched ws wid date (stocks @ [market_stock (PStr (py_str (Kod w))) wid stock date])
              (remove1 (PStr (py_str (Kod w))) ids) = Inr (stocks', ids')"
      by (auto split: sum.splits)
    have "x \<in> set (remove1 (PStr (py_str (Kod w))) ids)"
      using Cons.prems(2) ne by (simp add: in_set_remove1)
    from Cons.IH [OF rec this nin] show ?thesis .
  qed
qed

lemma market_matched_fails:
  assumes "offer_key w \<in> set ids" and "offer_key w \<notin> offer_key ` set pre"
    and "stock_of (Kolichestvo w) = Inl e"
  shows "\<exists>e'. market_matched (pre @ w # post) wid date stocks ids = Inl e'"
    and "market_matched pre wid date stocks ids = Inr r \<Longrightarrow> market_matched (pre @ w # post) wid date stocks ids = Inl e"
proof -
  show "\<exists>e'. market_matched (pre @ w # post) wid date stocks ids = Inl e'"
  proof (cases "market_matched pre wid date stocks ids")
    case (Inl a)
    then show ?thesis by (simp add: market_matched_append)
  next
    case (Inr r)
    obtain s i where r: "r = (s, i)" by (cases r)
    with Inr assms(1,2) have "offer_key w \<in> set i" using market_matched_keeps by blast
    then show ?thesis using Inr r assms(3)
      by (simp add: market_matched_append offer_key_def)
  qed
  show "market_matched (pre @ w # post) wid date stocks ids = Inl e" if p: "market_matched pre wid date stocks ids = Inr r"
  proof -
    obtain s i where r: "r = (s, i)" by (cases r)
    with p assms(1,2) have "offer_key w \<in> set i" using market_matched_keeps by blast
    then show ?thesis using p r assms(3)
      by (simp add: market_matched_append offer_key_def)
  qed
qed


lemma market_create_stocks_mset:
  assumes "market_create_stocks ws ids wid now = Inr (stocks, ids')"
  shows "mset (map (\<lambda>s. field s ''sku'') stocks) = mset (map (\<lambda>i. Some (Val i)) ids)"
proof -
  from assms obtain st where m: "market_matched ws wid (utc_date now) [] ids = Inr (st, ids')"
    and s: "stocks = st @ map (\<lambda>offer_id. market_stock offer_id wid 0 (utc_date now)) ids'"
    by (auto simp: market_create_stocks_def Let_def split: sum.splits)
  have k: "map (\<lambda>s. field s ''sku'') stocks =
        map (\<lambda>s. field s ''sku'') st @ map (\<lambda>i. Some (Val i)) ids'"
    by (simp add: s market_stock_def)
  show ?thesis unfolding k using market_matched_mset [OF m] by simp
qed

lemma covers_from_mset:
  assumes "mset keys = mset (map (\<lambda>i. Some (Val i)) ids)" and "distinct ids"
  shows "set keys = (\<lambda>i. Some (Val i)) ` set ids \<and> distinct keys \<and> length keys = length ids"
proof -
  have "distinct (map (\<lambda>i. Some (Val i)) ids)"
    using assms(2) by (simp add: distinct_map inj_on_def)
  then have "distinct keys" using assms(1) by (metis mset_eq_imp_distinct_iff)
  moreover have "set keys = (\<lambda>i. Some (Val i)) ` set ids"
    using assms(1) by (metis mset_eq_setD set_map)
  moreover have "length keys = length ids"
    using assms(1) by (metis mset_eq_length length_map)
  ultimately show ?thesis by simp
qed

text \<open>
  Claim C1. For every list of inventory records and every duplicate-free list of offer ids,
  the stock list that \<^verbatim>\<open>create_stocks\<close> returns (in either channel) has exactly one entry per
  enumerated offer id and none for any other id: the offer ids of the entries are the
  enumerated ids, without duplicates and without omissions. The call returns whenever the
  quantity of every record can be normalized, in particular for the empty list of records.
\<close>

theorem create_stocks_covers_offer_ids:
  assumes "distinct offer_ids"
  shows "(seller_create_stocks ws offer_ids = Inr (stocks, ids') \<longrightarrow>
            set (map (\<lambda>s. field s ''offer_id'') stocks) = (\<lambda>i. Some (Val i)) ` set offer_ids
            \<and> distinct (map (\<lambda>s. field s ''offer_id'') stocks)
            \<and> length stocks = length offer_ids)
       \<and> (market_create_stocks ws offer_ids warehouse_id now = Inr (mstocks, mids') \<longrightarrow>
            set (map (\<lambda>s. field s ''sku'') mstocks) = (\<lambda>i. Some (Val i)) ` set offer_ids
            \<and> distinct (map (\<lambda>s. field s ''sku'') mstocks)
            \<and> length mstocks = length offer_ids)
       \<and> ((\<forall>w\<in>set ws. \<exists>n. stock_of (Kolichestvo w) = Inr n) \<longrightarrow>
            (\<exists>r. seller_create_stocks ws offer_ids = Inr r)
            \<and> (\<exists>r. market_create_stocks ws offer_ids warehouse_id now = Inr r))"
proof (intro conjI impI)
  assume "seller_create_stocks ws offer_ids = Inr (stocks, ids')"
  then have "mset (map (\<lambda>s. field s ''offer_id'') stocks) = mset (map (\<lambda>i. Some (Val i)) offer_ids)"
    by (rule seller_create_stocks_mset)
  from covers_from_mset [OF this assms]
  show "set (map (\<lambda>s. field s ''offer_id'') stocks) = (\<lambda>i. Some (Val i)) ` set offer_ids"
    and "distinct (map (\<lambda>s. field s ''offer_id'') stocks)"
    and "length stocks = length offer_ids"
    by simp_all
next
  assume "market_create_stocks ws offer_ids warehouse_id now = Inr (mstocks, mids')"
  then have "mset (map (\<lambda>s. field s ''sku'') mstocks) = mset (map (\<lambda>i. Some (Val i)) offer_ids)"
    by (rule market_create_stocks_mset)
  from covers_from_mset [OF this assms]
  show "set (map (\<lambda>s. field s ''sku'') mstocks) = (\<lambda>i. Some (Val i)) ` set offer_ids"
    and "distinct (map (\<lambda>s. field s ''sku'') mstocks)"
    and "length mstocks = length offer_ids"
    by simp_all
next
  assume a: "\<forall>w\<in>set ws. \<exists>n. stock_of (Kolichestvo w) = Inr n"
  from seller_matched_total [OF a, of "[]" offer_ids]
  show "\<exists>r. seller_create_stocks ws offer_ids = Inr r"
    by (auto simp: seller_create_stocks_def)
  from market_matched_total [OF a, of warehouse_id "utc_date now" "[]" offer_ids]
  show "\<exists>r. market_create_stocks ws offer_ids warehouse_id now = Inr r"
    by (auto simp: market_create_stocks_def)
qed

lemmas stocks_eval = seller_create_stocks_def market_create_stocks_def Let_def stock_of_def
  digits_of.simps digit_char_def

theorem create_stocks_covers_offer_ids_witness:
  "distinct [PStr ''73397'', PStr ''73398'']
   \<and> seller_create_stocks
        [\<lparr>Kod = PInt 73397, Cena = PStr ''22'990.00'', Kolichestvo = PStr ''>10''\<rparr>]
        [PStr ''73397'', PStr ''73398''] =
      Inr ([seller_stock (PStr ''73397'') 100, seller_stock (PStr ''73398'') 0], [PStr ''73398''])
   \<and> set (map (\<lambda>s. field s ''offer_id'')
        [seller_stock (PStr ''73397'') 100, seller_stock (PStr ''73398'') 0]) =
      (\<lambda>i. Some (Val i)) ` set [PStr ''73397'', PStr ''73398'']
   \<and> distinct (map (\<lambda>s. field s ''offer_id'')
        [seller_stock (PStr ''73397'') 100, seller_stock (PStr ''73398'') 0])"
proof -
  have d: "distinct [PStr ''73397'', PStr ''73398'']" by simp
  have e: "seller_create_stocks
        [\<lparr>Kod = PInt 73397, Cena = PStr ''22'990.00'', Kolichestvo = PStr ''>10''\<rparr>]
        [PStr ''73397'', PStr ''73398''] =
      Inr ([seller_stock (PStr ''73397'') 100, seller_stock (PStr ''73398'') 0], [PStr ''73398''])"
    by (simp add: stocks_eval)
  from create_stocks_covers_offer_ids [OF d, of
      "[\<lparr>Kod = PInt 73397, Cena = PStr ''22'990.00'', Kolichestvo = PStr ''>10''\<rparr>]"
      "[seller_stock (PStr ''73397'') 100, seller_stock (PStr ''73398'') 0]" "[PStr ''73398'']"] e d
  show ?thesis by blast
qed


lemma seller_create_prices_unmatched:
  "offer_key ` set ws \<inter> set ids = {} \<Longrightarrow> seller_create_prices ws ids = Inr []"
  by (induction ws) (auto simp: offer_key_def)

lemma seller_create_stocks_offer_ids:
  assumes "seller_create_stocks ws ids = Inr (stocks, ids')" and "distinct ids"
  shows "distinct ids' \<and> set ids' = set ids - offer_key ` set ws"
proof -
  from assms(1) obtain st where "seller_matched ws [] ids = Inr (st, ids')"
    by (auto simp: seller_create_stocks_def split: sum.splits)
  from seller_matched_remaining [OF this assms(2)] show ?thesis .
qed

lemma market_create_stocks_offer_ids:
  assumes "market_create_stocks ws ids wid now = Inr (stocks, ids')" and "distinct ids"
  shows "distinct ids' \<and> set ids' = set ids - offer_key ` set ws"
proof -
  from assms(1) obtain st where "market_matched ws wid (utc_date now) [] ids = Inr (st, ids')"
    by (auto simp: market_create_stocks_def Let_def split: sum.splits)
  from market_matched_remaining [OF this assms(2)] show ?thesis .
qed

lemma seller_main_no_prices:
  assumes "seller_main_payloads ws ids = Inr (stocks, prices)" and "distinct ids"
  shows "prices = []"
proof -
  from assms(1) obtain ids' where c: "seller_create_stocks ws ids = Inr (stocks, ids')"
    and p: "seller_create_prices ws ids' = Inr prices"
    by (auto simp: seller_main_payloads_def split: sum.splits)
  from seller_create_stocks_offer_ids [OF c assms(2)]
  have "offer_key ` set ws \<inter> set ids' = {}" by auto
  from seller_create_prices_unmatched [OF this] p show ?thesis by simp
qed

text \<open>
  Claim C2 says that \<^verbatim>\<open>create_stocks\<close> works on its own copy of the offer ids and leaves the
  caller's list unchanged. The code removes the matched ids from the caller's list. On the
  record with code 73397 and the offer ids 73397 and 73398, the list is left holding 73398 alone
  in both channels; \<^verbatim>\<open>create_prices\<close> on the full list gives the price of offer 73397, and the
  sequence of \<^verbatim>\<open>main\<close> in \<^verbatim>\<open>seller.py\<close>, which passes the same list to \<^verbatim>\<open>create_prices\<close> after
  \<^verbatim>\<open>create_stocks\<close>, gives no price at all.
\<close>

theorem create_stocks_mutates_offer_ids:
  "seller_create_stocks
     [\<lparr>Kod = PInt 73397, Cena = PStr ''22'990.00'', Kolichestvo = PStr ''>10''\<rparr>]
     [PStr ''73397'', PStr ''73398''] =
   Inr ([seller_stock (PStr ''73397'') 100, seller_stock (PStr ''73398'') 0], [PStr ''73398''])
   \<and> market_create_stocks
     [\<lparr>Kod = PInt 73397, Cena = PStr ''22'990.00'', Kolichestvo = PStr ''>10''\<rparr>]
     [PStr ''73397'', PStr ''73398''] (PStr ''WAREHOUSE_ID'')
     \<lparr>dt_year = 2025, dt_month = 2, dt_day = 6, dt_hour = 8, dt_minute = 53, dt_second = 21,
      dt_microsecond = 123456\<rparr> =
   Inr ([market_stock (PStr ''73397'') (PStr ''WAREHOUSE_ID'') 100 ''2025-02-06T08:53:21Z'',
         market_stock (PStr ''73398'') (PStr ''WAREHOUSE_ID'') 0 ''2025-02-06T08:53:21Z''],
        [PStr ''73398''])
   \<and> seller_create_prices
     [\<lparr>Kod = PInt 73397, Cena = PStr ''22'990.00'', Kolichestvo = PStr ''>10''\<rparr>]
     [PStr ''73397'', PStr ''73398''] = Inr [seller_price ''73397'' ''22990'']
   \<and> seller_main_payloads
     [\<lparr>Kod = PInt 73397, Cena = PStr ''22'990.00'', Kolichestvo = PStr ''>10''\<rparr>]
     [PStr ''73397'', PStr ''73398''] =
   Inr ([seller_stock (PStr ''73397'') 100, seller_stock (PStr ''73398'') 0], [])"
  by (simp add: stocks_eval seller_main_payloads_def re_sub_non_digits_def is_digit_def
      utc_date_def isoformat_def zpad_def)

text \<open>
  Claim C9 as stated fails where two records carry the same code: the first one consumes the
  offer id, and the second one, whose quantity \<^verbatim>\<open>int\<close> rejects, is skipped without an error.
\<close>

theorem malformed_duplicate_record_is_skipped:
  "offer_key \<lparr>Kod = PStr ''73397'', Cena = PStr ''5.50'', Kolichestvo = PStr ''abc''\<rparr>
     \<in> set [PStr ''73397'']
   \<and> int_of_str ''abc'' = Inl ValueError
   \<and> seller_create_stocks
        [\<lparr>Kod = PStr ''73397'', Cena = PStr ''5.50'', Kolichestvo = PStr ''5''\<rparr>,
         \<lparr>Kod = PStr ''73397'', Cena = PStr ''5.50'', Kolichestvo = PStr ''abc''\<rparr>]
        [PStr ''73397''] = Inr ([seller_stock (PStr ''73397'') 5], [])
   \<and> market_create_stocks
        [\<lparr>Kod = PStr ''73397'', Cena = PStr ''5.50'', Kolichestvo = PStr ''5''\<rparr>,
         \<lparr>Kod = PStr ''73397'', Cena = PStr ''5.50'', Kolichestvo = PStr ''abc''\<rparr>]
        [PStr ''73397''] (PStr ''WAREHOUSE_ID'')
        \<lparr>dt_year = 2025, dt_month = 2, dt_day = 6, dt_hour = 8, dt_minute = 53, dt_second = 21,
         dt_microsecond = 0\<rparr> =
      Inr ([market_stock (PStr ''73397'') (PStr ''WAREHOUSE_ID'') 5 ''2025-02-06T08:53:21Z''], [])"
  by (simp add: stocks_eval int_eval offer_key_def utc_date_def isoformat_def zpad_def)

lemma seller_matched_skips:
  assumes "distinct ids" and "offer_key w \<in> offer_key ` set pre"
  shows "seller_matched (pre @ w # post) stocks ids = seller_matched (pre @ post) stocks ids"
proof (cases "seller_matched pre stocks ids")
  case (Inl e)
  then show ?thesis by (simp add: seller_matched_append)
next
  case (Inr r)
  obtain s i where r: "r = (s, i)" by (cases r)
  from seller_matched_remaining [OF Inr [unfolded r] assms(1)] assms(2)
  have "offer_key w \<notin> set i" by simp
  then have "seller_matched (w # post) s i = seller_matched post s i"
    by (simp add: offer_key_def)
  then show ?thesis using Inr r by (simp add: seller_matched_append)
qed

lemma market_matched_skips:
  assumes "distinct ids" and "offer_key w \<in> offer_key ` set pre"
  shows "market_matched (pre @ w # post) wid date stocks ids =
         market_matched (pre @ post) wid date stocks ids"
proof (cases "market_matched pre wid date stocks ids")
  case (Inl e)
  then show ?thesis by (simp add: market_matched_append)
next
  case (Inr r)
  obtain s i where r: "r = (s, i)" by (cases r)
  from market_matched_remaining [OF Inr [unfolded r] assms(1)] assms(2)
  have "offer_key w \<notin> set i" by simp
  then have "market_matched (w # post) wid date s i = market_matched post wid date s i"
    by (simp add: offer_key_def)
  then show ?thesis using Inr r by (simp add: market_matched_append)
qed

text \<open>
  Claim C9, amended. If a record is reached while its code is still among the offer ids (the
  code is enumerated and no earlier record carries it), and its quantity is a text other than
  \<^verbatim>\<open>>10\<close> and \<^verbatim>\<open>1\<close> that \<^verbatim>\<open>int\<close> rejects, then \<^verbatim>\<open>create_stocks\<close> raises and returns no stock
  list, whatever records follow: the exception is not caught and no record is skipped. The
  exception is the \<^verbatim>\<open>ValueError\<close> of this record when the records before it are processed
  without an exception. A record whose code an earlier record carries is passed over, whatever
  its quantity, when the offer ids are duplicate-free: the call behaves as if the record were
  not in the feed.
\<close>

theorem create_stocks_aborts_on_malformed_quantity:
  assumes "offer_key w \<in> set offer_ids"
    and "offer_key w \<notin> offer_key ` set pre"
    and "Kolichestvo w = PStr q" and "q \<noteq> ''>10''" and "q \<noteq> ''1''"
    and "int_of_str q = Inl ValueError"
  shows "(\<exists>e. seller_create_stocks (pre @ w # post) offer_ids = Inl e)
       \<and> (\<exists>e. market_create_stocks (pre @ w # post) offer_ids warehouse_id now = Inl e)
       \<and> ((\<exists>r. seller_create_stocks pre offer_ids = Inr r) \<longrightarrow>
            seller_create_stocks (pre @ w # post) offer_ids = Inl ValueError)
       \<and> ((\<exists>r. market_create_stocks pre offer_ids warehouse_id now = Inr r) \<longrightarrow>
            market_create_stocks (pre @ w # post) offer_ids warehouse_id now = Inl ValueError)
       \<and> (distinct ids \<and> offer_key v \<in> offer_key ` set before \<longrightarrow>
            seller_create_stocks (before @ v # after) ids = seller_create_stocks (before @ after) ids
            \<and> market_create_stocks (before @ v # after) ids warehouse_id now =
                market_create_stocks (before @ after) ids warehouse_id now)"
proof -
  have st: "stock_of (Kolichestvo w) = Inl ValueError"
    using assms(3-6) by (simp add: stock_of_def)
  note s = seller_matched_fails [OF assms(1,2) st]
  note m = market_matched_fails [OF assms(1,2) st]
  have 1: "\<exists>e. seller_create_stocks (pre @ w # post) offer_ids = Inl e"
    using s(1) [of post "[]"] by (auto simp: seller_create_stocks_def)
  have 2: "\<exists>e. market_create_stocks (pre @ w # post) offer_ids warehouse_id now = Inl e"
    using m(1) [of post warehouse_id "utc_date now" "[]"]
    by (auto simp: market_create_stocks_def)
  have 3: "seller_create_stocks (pre @ w # post) offer_ids = Inl ValueError"
    if "\<exists>r. seller_create_stocks pre offer_ids = Inr r"
  proof -
    from that obtain r where "seller_matched pre [] offer_ids = Inr r"
      by (auto simp: seller_create_stocks_def split: sum.splits)
    from s(2) [OF this] show ?thesis by (simp add: seller_create_stocks_def)
  qed
  have 4: "market_create_stocks (pre @ w # post) offer_ids warehouse_id now = Inl ValueError"
    if "\<exists>r. market_create_stocks pre offer_ids warehouse_id now = Inr r"
  proof -
    from that obtain r where "market_matched pre warehouse_id (utc_date now) [] offer_ids = Inr r"
      by (auto simp: market_create_stocks_def Let_def split: sum.splits)
    from m(2) [OF this] show ?thesis by (simp add: market_create_stocks_def)
  qed
  have 5: "seller_create_stocks (before @ v # after) ids = seller_create_stocks (before @ after) ids"
    if "distinct ids \<and> offer_key v \<in> offer_key ` set before"
    using that by (simp add: seller_create_stocks_def seller_matched_skips)
  have 6: "market_create_stocks (before @ v # after) ids warehouse_id now =
                market_create_stocks (before @ after) ids warehouse_id now"
    if "distinct ids \<and> offer_key v \<in> offer_key ` set before"
    using that by (simp add: market_create_stocks_def market_matched_skips)
  from 1 2 3 4 5 6 show ?thesis by blast
qed

theorem create_stocks_aborts_on_malformed_quantity_witness:
  "seller_create_stocks
     [\<lparr>Kod = PStr ''73397'', Cena = PStr ''5.50'', Kolichestvo = PStr ''5''\<rparr>,
      \<lparr>Kod = PStr ''73398'', Cena = PStr ''5.50'', Kolichestvo = PStr ''abc''\<rparr>,
      \<lparr>Kod = PStr ''73399'', Cena = PStr ''5.50'', Kolichestvo = PStr ''7''\<rparr>]
     [PStr ''73397'', PStr ''73398'', PStr ''73399''] = Inl ValueError
   \<and> seller_create_stocks
     [\<lparr>Kod = PStr ''73397'', Cena = PStr ''5.50'', Kolichestvo = PStr ''5''\<rparr>,
      \<lparr>Kod = PStr ''73397'', Cena = PStr ''5.50'', Kolichestvo = PStr ''abc''\<rparr>]
     [PStr ''73397'', PStr ''73398''] =
     Inr ([seller_stock (PStr ''73397'') 5, seller_stock (PStr ''73398'') 0], [PStr ''73398''])"
proof -
  let ?w = "\<lparr>Kod = PStr ''73398'', Cena = PStr ''5.50'', Kolichestvo = PStr ''abc''\<rparr>"
  let ?p = "\<lparr>Kod = PStr ''73397'', Cena = PStr ''5.50'', Kolichestvo = PStr ''5''\<rparr>"
  let ?v = "\<lparr>Kod = PStr ''73397'', Cena = PStr ''5.50'', Kolichestvo = PStr ''abc''\<rparr>"
  let ?ids = "[PStr ''73397'', PStr ''73398'', PStr ''73399'']"
  let ?ids2 = "[PStr ''73397'', PStr ''73398'']"
  have 1: "offer_key ?w \<in> set ?ids" by (simp add: offer_key_def)
  have 2: "offer_key ?w \<notin> offer_key ` set [?p]" by (simp add: offer_key_def)
  have 3: "Kolichestvo ?w = PStr ''abc''" by simp
  have 4: "''abc'' \<noteq> ''>10''" "''abc'' \<noteq> ''1''" by simp_all
  have 5: "int_of_str ''abc'' = Inl ValueError" by (simp add: int_eval)
  have 6: "\<exists>r. seller_create_stocks [?p] ?ids = Inr r"
    by (simp add: stocks_eval int_eval)
  have 7: "distinct ?ids2 \<and> offer_key ?v \<in> offer_key ` set [?p]" by (simp add: offer_key_def)
  have 8: "seller_create_stocks ([?p] @ []) ?ids2 =
      Inr ([seller_stock (PStr ''73397'') 5, seller_stock (PStr ''73398'') 0], [PStr ''73398''])"
    by (simp add: stocks_eval int_eval)
  from create_stocks_aborts_on_malformed_quantity [OF 1 2 3 4 5,
      of "[\<lparr>Kod = PStr ''73399'', Cena = PStr ''5.50'', Kolichestvo = PStr ''7''\<rparr>]"
         _ _ ?ids2 ?v "[?p]" "[]"] 6 7
  have "seller_create_stocks ([?p] @ ?w # [\<lparr>Kod = PStr ''73399'', Cena = PStr ''5.50'', Kolichestvo = PStr ''7''\<rparr>]) ?ids = Inl ValueError"
    and "seller_create_stocks ([?p] @ ?v # []) ?ids2 = seller_create_stocks ([?p] @ []) ?ids2"
    by blast+
  then show ?thesis using 8 by simp
qed

section \<open>Properties of \<^verbatim>\<open>create_prices\<close>\<close>

lemma int_of_str_digit_string:
  assumes "list_all is_digit d"
  shows "int_of_str d = Inr v \<longleftrightarrow> d \<noteq> [] \<and> length d \<le> max_str_digits \<and> v = decimal_value d"
proof (cases "d \<noteq> [] \<and> length d \<le> max_str_digits")
  case True
  then have "int_of_str d = Inr (digits_value d)"
    using assms by (simp add: int_of_str_digits)
  with True show ?thesis by (auto simp: digits_value_decimal)
next
  case False
  have "int_of_str d = Inl ValueError"
  proof (cases "d = []")
    case True
    then show ?thesis by (simp add: int_eval)
  next
    case d: False
    with False have "max_str_digits < length d" by simp
    with assms show ?thesis by (rule int_of_str_too_long)
  qed
  with False show ?thesis by auto
qed

lemma list_all2_left: "list_all2 P xs ys \<Longrightarrow> x \<in> set xs \<Longrightarrow> \<exists>y. P x y"
  by (auto simp: in_set_conv_nth list_all2_conv_all_nth)

lemma price_conversion_Inr:
  "price_conversion c = Inr d \<longleftrightarrow>
     (\<exists>p. c = PStr p \<and> d = filter is_digit (takeWhile (\<lambda>c. c \<noteq> CHR ''.'') p))"
proof (cases c)
  case (PStr p)
  show ?thesis unfolding PStr by (simp only: price_conversion_PStr) auto
qed simp_all

lemma seller_create_prices_entries:
  "seller_create_prices ws ids = Inr prices \<Longrightarrow>
   list_all2 (\<lambda>w p. \<exists>d. price_conversion (Cena w) = Inr d \<and> p = seller_price (py_str (Kod w)) d)
     (filter (\<lambda>w. offer_key w \<in> set ids) ws) prices"
proof (induction ws arbitrary: prices)
  case Nil
  then show ?case by simp
next
  case (Cons w ws)
  show ?case
  proof (cases "PStr (py_str (Kod w)) \<in> set ids")
    case False
    with Cons show ?thesis by (simp add: offer_key_def)
  next
    case True
    with Cons.prems obtain d rest where d: "price_conversion (Cena w) = Inr d"
      and r: "seller_create_prices ws ids = Inr rest"
      and p: "prices = seller_price (py_str (Kod w)) d # rest"
      by (cases "price_conversion (Cena w)"; cases "seller_create_prices ws ids") auto
    from Cons.IH [OF r] d p True show ?thesis by (simp add: offer_key_def)
  qed
qed

lemma market_create_prices_entries:
  "market_create_prices ws ids = Inr prices \<Longrightarrow>
   list_all2 (\<lambda>w p. \<exists>d v. price_conversion (Cena w) = Inr d \<and> int_of_str d = Inr v
        \<and> v = decimal_value d \<and> p = market_price (py_str (Kod w)) v)
     (filter (\<lambda>w. offer_key w \<in> set ids) ws) prices"
proof (induction ws arbitrary: prices)
  case Nil
  then show ?case by simp
next
  case (Cons w ws)
  show ?case
  proof (cases "PStr (py_str (Kod w)) \<in> set ids")
    case False
    with Cons show ?thesis by (simp add: offer_key_def)
  next
    case True
    with Cons.prems obtain d v rest where d: "price_conversion (Cena w) = Inr d"
      and v: "int_of_str d = Inr v"
      and r: "market_create_prices ws ids = Inr rest"
      and p: "prices = market_price (py_str (Kod w)) v # rest"
      by (cases "price_conversion (Cena w)"; cases "int_of_str (projr (price_conversion (Cena w)))";
          cases "market_create_prices ws ids") auto
    from d have "list_all is_digit d"
      unfolding price_conversion_Inr by (auto simp: list_all_iff)
    with v have "v = decimal_value d" by (simp add: int_of_str_digit_string)
    with Cons.IH [OF r] d v p True show ?thesis by (simp add: offer_key_def)
  qed
qed

lemma seller_price_ids:
  assumes "list_all2 (\<lambda>w p. \<exists>d. price_conversion (Cena w) = Inr d \<and> p = seller_price (py_str (Kod w)) d) ms prices"
  shows "map (\<lambda>p. field p ''offer_id'') prices = map (\<lambda>w. Some (Val (offer_key w))) ms"
  using assms by (induction rule: list_all2_induct) (auto simp: seller_price_def offer_key_def)

lemma market_price_ids:
  assumes "list_all2 (\<lambda>w p. \<exists>d v. price_conversion (Cena w) = Inr d \<and> int_of_str d = Inr v
        \<and> v = decimal_value d \<and> p = market_price (py_str (Kod w)) v) ms prices"
  shows "map (\<lambda>p. field p ''id'') prices = map (\<lambda>w. Some (Val (offer_key w))) ms"
  using assms by (induction rule: list_all2_induct) (auto simp: market_price_def offer_key_def)

lemma seller_create_prices_total:
  "(\<forall>w\<in>set ws. offer_key w \<in> set ids \<longrightarrow> (\<exists>p. Cena w = PStr p)) \<Longrightarrow>
   \<exists>prices. seller_create_prices ws ids = Inr prices"
proof (induction ws)
  case Nil
  then show ?case by simp
next
  case (Cons w ws)
  then obtain rest where r: "seller_create_prices ws ids = Inr rest" by auto
  show ?case
  proof (cases "PStr (py_str (Kod w)) \<in> set ids")
    case False
    with r show ?thesis by simp
  next
    case True
    with Cons.prems obtain p where "Cena w = PStr p" by (auto simp: offer_key_def)
    then have "price_conversion (Cena w) = Inr (filter is_digit (takeWhile (\<lambda>c. c \<noteq> CHR ''.'') p))"
      by (simp only: price_conversion_PStr)
    with True r show ?thesis by simp
  qed
qed

lemma market_create_prices_total:
  "(\<forall>w\<in>set ws. offer_key w \<in> set ids \<longrightarrow>
      (\<exists>p. Cena w = PStr p \<and> list_ex is_digit (takeWhile (\<lambda>c. c \<noteq> CHR ''.'') p)
         \<and> length (filter is_digit (takeWhile (\<lambda>c. c \<noteq> CHR ''.'') p)) \<le> max_str_digits)) \<Longrightarrow>
   \<exists>prices. market_create_prices ws ids = Inr prices"
proof (induction ws)
  case Nil
  then show ?case by simp
next
  case (Cons w ws)
  then obtain rest where r: "market_create_prices ws ids = Inr rest" by auto
  show ?case
  proof (cases "PStr (py_str (Kod w)) \<in> set ids")
    case False
    with r show ?thesis by simp
  next
    case True
    let ?d = "\<lambda>p. filter is_digit (takeWhile (\<lambda>c. c \<noteq> CHR ''.'') p)"
    from True Cons.prems obtain p where p: "Cena w = PStr p"
      and ex: "list_ex is_digit (takeWhile (\<lambda>c. c \<noteq> CHR ''.'') p)"
      and len: "length (?d p) \<le> max_str_digits"
      by (auto simp: offer_key_def)
    have pc: "price_conversion (Cena w) = Inr (?d p)"
      unfolding p by (rule price_conversion_PStr)
    from ex have ne: "?d p \<noteq> []" by (simp add: list_ex_iff filter_empty_conv)
    have "list_all is_digit (?d p)" by (simp add: list_all_iff)
    then have "int_of_str (?d p) = Inr (decimal_value (?d p))"
      using ne len by (simp add: int_of_str_digit_string)
    with True r pc show ?thesis by simp
  qed
qed

text \<open>
  Claim C5. In both channels \<^verbatim>\<open>create_prices\<close> emits one entry for each record whose
  stringified code is among the offer ids, in the order of the records, and nothing else. The
  membership test removes nothing: a code carried by two records yields two entries. An
  enumerated offer that no record carries gets no entry (prices are not zero-filled). The
  price of an entry is \<^verbatim>\<open>price_conversion\<close> of the record's price, in \<^verbatim>\<open>market.py\<close> the integer
  that its digits denote. \<^verbatim>\<open>create_prices\<close> of \<^verbatim>\<open>seller.py\<close> returns exactly when the price of
  every matched record is a string; \<^verbatim>\<open>create_prices\<close> of \<^verbatim>\<open>market.py\<close> returns exactly when it
  is a string with at least one and at most 4300 digits before its first decimal point.
\<close>

theorem create_prices_only_matched:
  "(seller_create_prices ws offer_ids = Inr prices \<longrightarrow>
      map (\<lambda>p. field p ''offer_id'') prices =
        map (\<lambda>w. Some (Val (offer_key w))) (filter (\<lambda>w. offer_key w \<in> set offer_ids) ws)
      \<and> list_all2 (\<lambda>w p. \<exists>d. price_conversion (Cena w) = Inr d
            \<and> p = seller_price (py_str (Kod w)) d)
          (filter (\<lambda>w. offer_key w \<in> set offer_ids) ws) prices
      \<and> (\<forall>i. i \<in> set offer_ids \<and> i \<notin> offer_key ` set ws \<longrightarrow>
            Some (Val i) \<notin> set (map (\<lambda>p. field p ''offer_id'') prices)))
   \<and> (market_create_prices ws offer_ids = Inr mprices \<longrightarrow>
      map (\<lambda>p. field p ''id'') mprices =
        map (\<lambda>w. Some (Val (offer_key w))) (filter (\<lambda>w. offer_key w \<in> set offer_ids) ws)
      \<and> list_all2 (\<lambda>w p. \<exists>d v. price_conversion (Cena w) = Inr d \<and> int_of_str d = Inr v
            \<and> v = decimal_value d \<and> p = market_price (py_str (Kod w)) v)
          (filter (\<lambda>w. offer_key w \<in> set offer_ids) ws) mprices
      \<and> (\<forall>i. i \<in> set offer_ids \<and> i \<notin> offer_key ` set ws \<longrightarrow>
            Some (Val i) \<notin> set (map (\<lambda>p. field p ''id'') mprices)))
   \<and> ((\<exists>r. seller_create_prices ws offer_ids = Inr r) \<longleftrightarrow>
        (\<forall>w\<in>set ws. offer_key w \<in> set offer_ids \<longrightarrow> (\<exists>p. Cena w = PStr p)))
   \<and> ((\<exists>r. market_create_prices ws offer_ids = Inr r) \<longleftrightarrow>
        (\<forall>w\<in>set ws. offer_key w \<in> set offer_ids \<longrightarrow>
           (\<exists>p. Cena w = PStr p \<and> list_ex is_digit (takeWhile (\<lambda>c. c \<noteq> CHR ''.'') p)
              \<and> length (filter is_digit (takeWhile (\<lambda>c. c \<noteq> CHR ''.'') p)) \<le> max_str_digits)))"
proof (intro conjI impI)
  assume a: "seller_create_prices ws offer_ids = Inr prices"
  note e = seller_create_prices_entries [OF a]
  show 1: "map (\<lambda>p. field p ''offer_id'') prices =
        map (\<lambda>w. Some (Val (offer_key w))) (filter (\<lambda>w. offer_key w \<in> set offer_ids) ws)"
    by (rule seller_price_ids [OF e])
  show "list_all2 (\<lambda>w p. \<exists>d. price_conversion (Cena w) = Inr d
            \<and> p = seller_price (py_str (Kod w)) d)
          (filter (\<lambda>w. offer_key w \<in> set offer_ids) ws) prices"
    by (rule e)
  show "\<forall>i. i \<in> set offer_ids \<and> i \<notin> offer_key ` set ws \<longrightarrow>
            Some (Val i) \<notin> set (map (\<lambda>p. field p ''offer_id'') prices)"
    unfolding 1 by auto
next
  assume a: "market_create_prices ws offer_ids = Inr mprices"
  note e = market_create_prices_entries [OF a]
  show 1: "map (\<lambda>p. field p ''id'') mprices =
        map (\<lambda>w. Some (Val (offer_key w))) (filter (\<lambda>w. offer_key w \<in> set offer_ids) ws)"
    by (rule market_price_ids [OF e])
  show "list_all2 (\<lambda>w p. \<exists>d v. price_conversion (Cena w) = Inr d \<and> int_of_str d = Inr v
            \<and> v = decimal_value d \<and> p = market_price (py_str (Kod w)) v)
          (filter (\<lambda>w. offer_key w \<in> set offer_ids) ws) mprices"
    by (rule e)
  show "\<forall>i. i \<in> set offer_ids \<and> i \<notin> offer_key ` set ws \<longrightarrow>
            Some (Val i) \<notin> set (map (\<lambda>p. field p ''id'') mprices)"
    unfolding 1 by auto
next
  show "(\<exists>r. seller_create_prices ws offer_ids = Inr r) \<longleftrightarrow>
        (\<forall>w\<in>set ws. offer_key w \<in> set offer_ids \<longrightarrow> (\<exists>p. Cena w = PStr p))"
  proof
    assume "\<exists>r. seller_create_prices ws offer_ids = Inr r"
    then obtain r where "seller_create_prices ws offer_ids = Inr r" ..
    note e = seller_create_prices_entries [OF this]
    show "\<forall>w\<in>set ws. offer_key w \<in> set offer_ids \<longrightarrow> (\<exists>p. Cena w = PStr p)"
    proof (intro ballI impI)
      fix w assume "w \<in> set ws" and "offer_key w \<in> set offer_ids"
      then have "w \<in> set (filter (\<lambda>w. offer_key w \<in> set offer_ids) ws)" by simp
      from list_all2_left [OF e this] obtain d where "price_conversion (Cena w) = Inr d"
        by blast
      then show "\<exists>p. Cena w = PStr p" unfolding price_conversion_Inr by blast
    qed
  next
    assume "\<forall>w\<in>set ws. offer_key w \<in> set offer_ids \<longrightarrow> (\<exists>p. Cena w = PStr p)"
    then show "\<exists>r. seller_create_prices ws offer_ids = Inr r"
      by (rule seller_create_prices_total)
  qed
next
  show "(\<exists>r. market_create_prices ws offer_ids = Inr r) \<longleftrightarrow>
        (\<forall>w\<in>set ws. offer_key w \<in> set offer_ids \<longrightarrow>
           (\<exists>p. Cena w = PStr p \<and> list_ex is_digit (takeWhile (\<lambda>c. c \<noteq> CHR ''.'') p)
              \<and> length (filter is_digit (takeWhile (\<lambda>c. c \<noteq> CHR ''.'') p)) \<le> max_str_digits))"
  proof
    assume "\<exists>r. market_create_prices ws offer_ids = Inr r"
    then obtain r where "market_create_prices ws offer_ids = Inr r" ..
    note e = market_create_prices_entries [OF this]
    show "\<forall>w\<in>set ws. offer_key w \<in> set offer_ids \<longrightarrow>
           (\<exists>p. Cena w = PStr p \<and> list_ex is_digit (takeWhile (\<lambda>c. c \<noteq> CHR ''.'') p)
              \<and> length (filter is_digit (takeWhile (\<lambda>c. c \<noteq> CHR ''.'') p)) \<le> max_str_digits)"
    proof (intro ballI impI)
      fix w assume "w \<in> set ws" and "offer_key w \<in> set offer_ids"
      then have "w \<in> set (filter (\<lambda>w. offer_key w \<in> set offer_ids) ws)" by simp
      from list_all2_left [OF e this] obtain d v where d: "price_conversion (Cena w) = Inr d"
        and v: "int_of_str d = Inr v"
        by blast
      from d obtain p where p: "Cena w = PStr p"
        and dp: "d = filter is_digit (takeWhile (\<lambda>c. c \<noteq> CHR ''.'') p)"
        unfolding price_conversion_Inr by blast
      have "list_all is_digit d" unfolding dp by (simp add: list_all_iff)
      with v have "d \<noteq> []" and "length d \<le> max_str_digits"
        by (simp_all add: int_of_str_digit_string)
      then have "list_ex is_digit (takeWhile (\<lambda>c. c \<noteq> CHR ''.'') p)"
        and "length (filter is_digit (takeWhile (\<lambda>c. c \<noteq> CHR ''.'') p)) \<le> max_str_digits"
        unfolding dp by (simp_all add: list_ex_iff filter_empty_conv)
      with p show "\<exists>p. Cena w = PStr p \<and> list_ex is_digit (takeWhile (\<lambda>c. c \<noteq> CHR ''.'') p)
              \<and> length (filter is_digit (takeWhile (\<lambda>c. c \<noteq> CHR ''.'') p)) \<le> max_str_digits"
        by blast
    qed
  next
    assume "\<forall>w\<in>set ws. offer_key w \<in> set offer_ids \<longrightarrow>
           (\<exists>p. Cena w = PStr p \<and> list_ex is_digit (takeWhile (\<lambda>c. c \<noteq> CHR ''.'') p)
              \<and> length (filter is_digit (takeWhile (\<lambda>c. c \<noteq> CHR ''.'') p)) \<le> max_str_digits)"
    then show "\<exists>r. market_create_prices ws offer_ids = Inr r"
      by (rule market_create_prices_total)
  qed
qed

lemmas prices_eval = offer_key_def re_sub_non_digits_def is_digit_def digits_of.simps digit_char_def

theorem create_prices_only_matched_witness:
  "seller_create_prices
     [\<lparr>Kod = PInt 73397, Cena = PStr ''22'990.00'', Kolichestvo = PStr ''>10''\<rparr>,
      \<lparr>Kod = PInt 73397, Cena = PStr ''5.50'', Kolichestvo = PStr ''1''\<rparr>,
      \<lparr>Kod = PInt 70001, Cena = PStr ''100.00'', Kolichestvo = PStr ''3''\<rparr>]
     [PStr ''73397'', PStr ''73398''] =
     Inr [seller_price ''73397'' ''22990'', seller_price ''73397'' ''5'']
   \<and> market_create_prices
     [\<lparr>Kod = PInt 73397, Cena = PStr ''22'990.00'', Kolichestvo = PStr ''>10''\<rparr>,
      \<lparr>Kod = PInt 73397, Cena = PStr ''5.50'', Kolichestvo = PStr ''1''\<rparr>,
      \<lparr>Kod = PInt 70001, Cena = PStr ''100.00'', Kolichestvo = PStr ''3''\<rparr>]
     [PStr ''73397'', PStr ''73398''] =
     Inr [market_price ''73397'' 22990, market_price ''73397'' 5]
   \<and> map (\<lambda>p. field p ''offer_id'') [seller_price ''73397'' ''22990'', seller_price ''73397'' ''5'']
       = [Some (Val (PStr ''73397'')), Some (Val (PStr ''73397''))]
   \<and> map (\<lambda>p. field p ''id'') [market_price ''73397'' 22990, market_price ''73397'' 5]
       = [Some (Val (PStr ''73397'')), Some (Val (PStr ''73397''))]
   \<and> PStr ''73398'' \<in> set [PStr ''73397'', PStr ''73398'']
   \<and> Some (Val (PStr ''73398'')) \<notin> set (map (\<lambda>p. field p ''offer_id'')
         [seller_price ''73397'' ''22990'', seller_price ''73397'' ''5''])
   \<and> Some (Val (PStr ''73398'')) \<notin> set (map (\<lambda>p. field p ''id'')
         [market_price ''73397'' 22990, market_price ''73397'' 5])"
proof -
  let ?ws = "[\<lparr>Kod = PInt 73397, Cena = PStr ''22'990.00'', Kolichestvo = PStr ''>10''\<rparr>,
      \<lparr>Kod = PInt 73397, Cena = PStr ''5.50'', Kolichestvo = PStr ''1''\<rparr>,
      \<lparr>Kod = PInt 70001, Cena = PStr ''100.00'', Kolichestvo = PStr ''3''\<rparr>]"
  let ?ids = "[PStr ''73397'', PStr ''73398'']"
  let ?prices = "[seller_price ''73397'' ''22990'', seller_price ''73397'' ''5'']"
  let ?mprices = "[market_price ''73397'' 22990, market_price ''73397'' 5]"
  have e: "seller_create_prices ?ws ?ids = Inr ?prices"
    by (simp add: prices_eval)
  have i1: "int_of_str ''22990'' = Inr 22990" and i2: "int_of_str ''5'' = Inr 5"
    by (simp_all add: int_eval)
  have m: "market_create_prices ?ws ?ids = Inr ?mprices"
    by (simp add: prices_eval i1 i2)
  have k: "PStr ''73398'' \<in> set ?ids \<and> PStr ''73398'' \<notin> offer_key ` set ?ws"
    by (simp add: prices_eval)
  from create_prices_only_matched [of ?ws ?ids ?prices ?mprices] e m k
  have "map (\<lambda>p. field p ''offer_id'') ?prices =
        map (\<lambda>w. Some (Val (offer_key w))) (filter (\<lambda>w. offer_key w \<in> set ?ids) ?ws)"
    and "map (\<lambda>p. field p ''id'') ?mprices =
        map (\<lambda>w. Some (Val (offer_key w))) (filter (\<lambda>w. offer_key w \<in> set ?ids) ?ws)"
    and "Some (Val (PStr ''73398'')) \<notin> set (map (\<lambda>p. field p ''offer_id'') ?prices)"
    and "Some (Val (PStr ''73398'')) \<notin> set (map (\<lambda>p. field p ''id'') ?mprices)"
    by blast+
  then show ?thesis using e m by (simp add: prices_eval)
qed

lemma market_create_prices_fails:
  "w \<in> set ws \<Longrightarrow> offer_key w \<in> set ids \<Longrightarrow> price_conversion (Cena w) = Inr d \<Longrightarrow>
   int_of_str d = Inl e \<Longrightarrow> \<exists>e'. market_create_prices ws ids = Inl e'"
proof (induction ws)
  case Nil
  then show ?case by simp
next
  case (Cons x ws)
  show ?case
  proof (cases "w = x")
    case True
    with Cons.prems show ?thesis by (simp add: offer_key_def)
  next
    case False
    with Cons obtain e' where "market_create_prices ws ids = Inl e'" by auto
    then show ?thesis by (auto split: sum.splits)
  qed
qed

lemma market_create_prices_error:
  "market_create_prices ws ids = Inl e \<Longrightarrow>
   (\<forall>w\<in>set ws. offer_key w \<in> set ids \<longrightarrow> (\<exists>p. Cena w = PStr p)) \<Longrightarrow> e = ValueError"
proof (induction ws)
  case Nil
  then show ?case by simp
next
  case (Cons w ws)
  show ?case
  proof (cases "PStr (py_str (Kod w)) \<in> set ids")
    case False
    with Cons show ?thesis by simp
  next
    case True
    with Cons.prems(2) obtain p where p: "Cena w = PStr p" by (auto simp: offer_key_def)
    have pc: "price_conversion (Cena w) = Inr (filter is_digit (takeWhile (\<lambda>c. c \<noteq> CHR ''.'') p))"
      unfolding p by (rule price_conversion_PStr)
    show ?thesis
    proof (cases "int_of_str (filter is_digit (takeWhile (\<lambda>c. c \<noteq> CHR ''.'') p))")
      case (Inl e')
      then have "e' = ValueError" by (rule int_of_str_error)
      with Inl True pc Cons.prems(1) show ?thesis by simp
    next
      case (Inr v)
      with True pc Cons.prems(1) have "market_create_prices ws ids = Inl e"
        by (cases "market_create_prices ws ids") auto
      with Cons show ?thesis by simp
    qed
  qed
qed

text \<open>
  Claim C10. For a price string with no ASCII digit before its first decimal point,
  \<^verbatim>\<open>price_conversion\<close> returns the empty string, which \<^verbatim>\<open>int\<close> rejects; so
  \<^verbatim>\<open>create_prices\<close> of \<^verbatim>\<open>market.py\<close> raises on a list that holds a matched record with such a
  price, instead of emitting a price of zero. The exception is the \<^verbatim>\<open>ValueError\<close> of \<^verbatim>\<open>int\<close>
  when the prices of the matched records are all strings.
\<close>

theorem empty_price_fails_in_market:
  assumes "\<not> list_ex is_digit (takeWhile (\<lambda>c. c \<noteq> CHR ''.'') price)"
  shows "price_conversion (PStr price) = Inr []
     \<and> int_of_str [] = Inl ValueError
     \<and> (w \<in> set ws \<and> offer_key w \<in> set offer_ids \<and> Cena w = PStr price \<longrightarrow>
          (\<exists>e. market_create_prices ws offer_ids = Inl e)
          \<and> ((\<forall>x\<in>set ws. offer_key x \<in> set offer_ids \<longrightarrow> (\<exists>p. Cena x = PStr p)) \<longrightarrow>
                market_create_prices ws offer_ids = Inl ValueError))"
proof (intro conjI impI)
  from assms have "filter is_digit (takeWhile (\<lambda>c. c \<noteq> CHR ''.'') price) = []"
    by (simp add: list_ex_iff filter_empty_conv)
  then show pc: "price_conversion (PStr price) = Inr []"
    by (simp only: price_conversion_PStr)
  show i: "int_of_str [] = Inl ValueError"
    by (simp add: int_eval)
  assume a: "w \<in> set ws \<and> offer_key w \<in> set offer_ids \<and> Cena w = PStr price"
  then have "price_conversion (Cena w) = Inr []" using pc by simp
  with a i show f: "\<exists>e. market_create_prices ws offer_ids = Inl e"
    using market_create_prices_fails by blast
  assume "\<forall>x\<in>set ws. offer_key x \<in> set offer_ids \<longrightarrow> (\<exists>p. Cena x = PStr p)"
  with f show "market_create_prices ws offer_ids = Inl ValueError"
    using market_create_prices_error by blast
qed

theorem empty_price_fails_in_market_witness:
  "\<not> list_ex is_digit (takeWhile (\<lambda>c. c \<noteq> CHR ''.'') ''.50'')
   \<and> price_conversion (PStr ''.50'') = Inr []
   \<and> price_conversion (PStr ([CHR 0xD1, CHR 0x80, CHR 0xD1, CHR 0x83, CHR 0xD0, CHR 0xB1] @ ''.'')) = Inr []
   \<and> market_create_prices
        [\<lparr>Kod = PInt 73397, Cena = PStr ''22'990.00'', Kolichestvo = PStr ''>10''\<rparr>,
         \<lparr>Kod = PInt 73398, Cena = PStr ''.50'', Kolichestvo = PStr ''2''\<rparr>]
        [PStr ''73397'', PStr ''73398''] = Inl ValueError
   \<and> seller_create_prices
        [\<lparr>Kod = PInt 73397, Cena = PStr ''22'990.00'', Kolichestvo = PStr ''>10''\<rparr>,
         \<lparr>Kod = PInt 73398, Cena = PStr ''.50'', Kolichestvo = PStr ''2''\<rparr>]
        [PStr ''73397'', PStr ''73398''] =
      Inr [seller_price ''73397'' ''22990'', seller_price ''73398'' []]"
proof -
  let ?w = "\<lparr>Kod = PInt 73398, Cena = PStr ''.50'', Kolichestvo = PStr ''2''\<rparr>"
  let ?ws = "[\<lparr>Kod = PInt 73397, Cena = PStr ''22'990.00'', Kolichestvo = PStr ''>10''\<rparr>, ?w]"
  let ?ids = "[PStr ''73397'', PStr ''73398'']"
  have h: "\<not> list_ex is_digit (takeWhile (\<lambda>c. c \<noteq> CHR ''.'') ''.50'')" by simp
  have a: "?w \<in> set ?ws \<and> offer_key ?w \<in> set ?ids \<and> Cena ?w = PStr ''.50''"
    by (simp add: prices_eval)
  have b: "\<forall>x\<in>set ?ws. offer_key x \<in> set ?ids \<longrightarrow> (\<exists>p. Cena x = PStr p)" by simp
  from empty_price_fails_in_market [OF h, of ?w ?ws ?ids] a b
  have "price_conversion (PStr ''.50'') = Inr []"
    and "market_create_prices ?ws ?ids = Inl ValueError" by blast+
  moreover have "price_conversion (PStr ([CHR 0xD1, CHR 0x80, CHR 0xD1, CHR 0x83, CHR 0xD0, CHR 0xB1] @ ''.'')) = Inr []"
    by (simp add: prices_eval)
  moreover have "seller_create_prices ?ws ?ids =
      Inr [seller_price ''73397'' ''22990'', seller_price ''73398'' []]"
    by (simp add: prices_eval)
  ultimately show ?thesis using h by simp
qed

section \<open>Properties of the timestamp\<close>

lemma digit_char_props:
  assumes "d < 10"
  shows "is_digit (digit_char d)" and "digit_val (digit_char d) = int d"
proof -
  from assms have "d = 0 \<or> d = 1 \<or> d = 2 \<or> d = 3 \<or> d = 4 \<or> d = 5 \<or> d = 6 \<or> d = 7 \<or> d = 8 \<or> d = 9"
    by arith
  then show "is_digit (digit_char d)" and "digit_val (digit_char d) = int d"
    by (auto simp: digit_char_def is_digit_def digit_val_def)
qed

lemma digits_of_digits: "list_all is_digit (digits_of n)"
proof (induction n rule: digits_of.induct)
  case (1 n)
  show ?case
  proof (cases "n < 10")
    case True
    then show ?thesis by (subst digits_of.simps) (simp add: digit_char_props)
  next
    case False
    have "n mod 10 < 10" by simp
    then have "is_digit (digit_char (n mod 10))" by (rule digit_char_props)
    with 1 False show ?thesis by (subst digits_of.simps) simp
  qed
qed

lemma digits_value_digits_of: "digits_value (digits_of n) = int n"
proof (induction n rule: digits_of.induct)
  case (1 n)
  show ?case
  proof (cases "n < 10")
    case True
    then have "digits_of n = [digit_char n]" by (subst digits_of.simps) simp
    then show ?thesis using True by (simp add: digits_value_def digit_char_props)
  next
    case False
    have m: "n mod 10 < 10" by simp
    from False have "digits_of n = digits_of (n div 10) @ [digit_char (n mod 10)]"
      by (subst digits_of.simps) simp
    then have "digits_value (digits_of n) = 10 * int (n div 10) + int (n mod 10)"
      using 1 False digit_char_props(2) [OF m] by (simp add: digits_value_snoc)
    also have "\<dots> = int (10 * (n div 10) + n mod 10)" by (simp only: of_nat_add of_nat_mult of_nat_numeral)
    also have "\<dots> = int n" by simp
    finally show ?thesis .
  qed
qed

lemma digits_of_length: "0 < k \<Longrightarrow> n < 10 ^ k \<Longrightarrow> length (digits_of n) \<le> k"
proof (induction k arbitrary: n)
  case 0
  then show ?case by simp
next
  case (Suc k)
  show ?case
  proof (cases "n < 10")
    case True
    then have "digits_of n = [digit_char n]" by (subst digits_of.simps) simp
    then show ?thesis by simp
  next
    case False
    with Suc.prems(2) have k: "0 < k" by (cases k) auto
    from Suc.prems(2) have "n div 10 < 10 ^ k"
      by (simp add: less_mult_imp_div_less mult.commute)
    from Suc.IH [OF k this] have "length (digits_of (n div 10)) \<le> k" .
    moreover from False have "digits_of n = digits_of (n div 10) @ [digit_char (n mod 10)]"
      by (subst digits_of.simps) simp
    ultimately show ?thesis by simp
  qed
qed

lemma digits_value_zeros: "digits_value (replicate k CHR ''0'' @ ds) = digits_value ds"
proof -
  have "foldl (\<lambda>a c. 10 * a + digit_val c) 0 (replicate k CHR ''0'') = 0"
    by (induction k) (simp_all add: digit_val_def)
  then show ?thesis by (simp add: digits_value_def)
qed

lemma zpad_props:
  assumes "0 < w" and "n < 10 ^ w"
  shows "length (zpad w n) = w" and "list_all is_digit (zpad w n)" and "digits_value (zpad w n) = int n"
proof -
  from digits_of_length [OF assms] show "length (zpad w n) = w" by (simp add: zpad_def)
  have "is_digit CHR ''0''" by (simp add: is_digit_def)
  then show "list_all is_digit (zpad w n)"
    using digits_of_digits [of n] by (auto simp: zpad_def list_all_iff)
  show "digits_value (zpad w n) = int n"
    by (simp add: zpad_def digits_value_zeros digits_value_digits_of)
qed

lemma utc_date_shape:
  "utc_date now =
     zpad 4 (dt_year now) @ ''-'' @ zpad 2 (dt_month now) @ ''-'' @ zpad 2 (dt_day now) @ ''T'' @
     zpad 2 (dt_hour now) @ '':'' @ zpad 2 (dt_minute now) @ '':'' @ zpad 2 (dt_second now) @ ''Z''"
  by (simp add: utc_date_def isoformat_def)

lemma utc_date_seconds: "utc_date (now\<lparr>dt_microsecond := u\<rparr>) = utc_date now"
  by (simp add: utc_date_def)

lemma market_matched_dates:
  "market_matched ws wid date stocks ids = Inr (stocks', ids') \<Longrightarrow>
   list_all (\<lambda>s. first_item_field s ''updatedAt'' = Some (Val (PStr date))) stocks \<Longrightarrow>
   list_all (\<lambda>s. first_item_field s ''updatedAt'' = Some (Val (PStr date))) stocks'"
proof (induction ws arbitrary: stocks ids)
  case Nil
  then show ?case by simp
next
  case (Cons w ws)
  show ?case
  proof (cases "PStr (py_str (Kod w)) \<in> set ids")
    case False
    with Cons show ?thesis by simp
  next
    case True
    with Cons.prems(1) obtain stock where
      rec: "market_matched ws wid date (stocks @ [market_stock (PStr (py_str (Kod w))) wid stock date])
              (remove1 (PStr (py_str (Kod w))) ids) = Inr (stocks', ids')"
      by (auto split: sum.splits)
    have "first_item_field (market_stock (PStr (py_str (Kod w))) wid stock date) ''updatedAt'' =
          Some (Val (PStr date))"
      by (simp add: first_item_field_def market_stock_def)
    with Cons.prems(2) have "list_all (\<lambda>s. first_item_field s ''updatedAt'' = Some (Val (PStr date)))
        (stocks @ [market_stock (PStr (py_str (Kod w))) wid stock date])"
      by simp
    from Cons.IH [OF rec this] show ?thesis .
  qed
qed

lemma market_create_stocks_dates:
  assumes "market_create_stocks ws ids wid now = Inr (stocks, ids')"
  shows "list_all (\<lambda>s. first_item_field s ''updatedAt'' = Some (Val (PStr (utc_date now)))) stocks"
proof -
  from assms obtain st where m: "market_matched ws wid (utc_date now) [] ids = Inr (st, ids')"
    and s: "stocks = st @ map (\<lambda>offer_id. market_stock offer_id wid 0 (utc_date now)) ids'"
    by (auto simp: market_create_stocks_def Let_def split: sum.splits)
  have "list_all (\<lambda>s. first_item_field s ''updatedAt'' = Some (Val (PStr (utc_date now)))) st"
    using market_matched_dates [OF m] by simp
  moreover have "list_all (\<lambda>s. first_item_field s ''updatedAt'' = Some (Val (PStr (utc_date now))))
      (map (\<lambda>offer_id. market_stock offer_id wid 0 (utc_date now)) ids')"
    by (simp add: list_all_iff first_item_field_def market_stock_def)
  ultimately show ?thesis by (simp add: s)
qed

lemma seller_matched_entries:
  "seller_matched ws stocks ids = Inr (stocks', ids') \<Longrightarrow>
   list_all (\<lambda>s. \<exists>i n. s = seller_stock i n) stocks \<Longrightarrow>
   list_all (\<lambda>s. \<exists>i n. s = seller_stock i n) stocks'"
proof (induction ws arbitrary: stocks ids)
  case Nil
  then show ?case by simp
next
  case (Cons w ws)
  show ?case
  proof (cases "PStr (py_str (Kod w)) \<in> set ids")
    case False
    with Cons show ?thesis by simp
  next
    case True
    with Cons.prems(1) obtain stock where
      rec: "seller_matched ws (stocks @ [seller_stock (PStr (py_str (Kod w))) stock])
              (remove1 (PStr (py_str (Kod w))) ids) = Inr (stocks', ids')"
      by (auto split: sum.splits)
    from Cons.prems(2) have "list_all (\<lambda>s. \<exists>i n. s = seller_stock i n)
        (stocks @ [seller_stock (PStr (py_str (Kod w))) stock])"
      by auto
    from Cons.IH [OF rec this] show ?thesis .
  qed
qed

lemma seller_create_stocks_entries:
  assumes "seller_create_stocks ws ids = Inr (stocks, ids')"
  shows "list_all (\<lambda>s. \<exists>i n. s = seller_stock i n) stocks"
proof -
  from assms obtain st where m: "seller_matched ws [] ids = Inr (st, ids')"
    and s: "stocks = st @ map (\<lambda>offer_id. seller_stock offer_id 0) ids'"
    by (auto simp: seller_create_stocks_def split: sum.splits)
  have "list_all (\<lambda>s. \<exists>i n. s = seller_stock i n) st"
    using seller_matched_entries [OF m] by simp
  moreover have "list_all (\<lambda>s. \<exists>i n. s = seller_stock i n) (map (\<lambda>offer_id. seller_stock offer_id 0) ids')"
    by (auto simp: list_all_iff)
  ultimately show ?thesis by (simp add: s)
qed


text \<open>
  Claim C8 as stated covers \<^verbatim>\<open>create_stocks\<close> of both channels. The entries that
  \<^verbatim>\<open>create_stocks\<close> of \<^verbatim>\<open>seller.py\<close> produces hold an offer id and a stock and no
  \<^verbatim>\<open>updatedAt\<close> value: that channel computes no timestamp.
\<close>

theorem seller_stocks_carry_no_timestamp:
  "seller_create_stocks
     [\<lparr>Kod = PInt 73397, Cena = PStr ''22'990.00'', Kolichestvo = PStr ''>10''\<rparr>]
     [PStr ''73397'', PStr ''73398''] =
   Inr ([PDict [(''offer_id'', Val (PStr ''73397'')), (''stock'', Val (PInt 100))],
         PDict [(''offer_id'', Val (PStr ''73398'')), (''stock'', Val (PInt 0))]],
        [PStr ''73398''])
   \<and> field (PDict [(''offer_id'', Val (PStr ''73397'')), (''stock'', Val (PInt 100))]) ''updatedAt'' = None
   \<and> field (PDict [(''offer_id'', Val (PStr ''73398'')), (''stock'', Val (PInt 0))]) ''updatedAt'' = None"
  by (simp add: seller_create_stocks_def stock_of_def seller_stock_def digits_of.simps digit_char_def)

text \<open>
  Claim C8, amended. In \<^verbatim>\<open>market.py\<close> the timestamp is computed once per call of
  \<^verbatim>\<open>create_stocks\<close> and reused: every entry of the returned list carries the same
  \<^verbatim>\<open>updatedAt\<close> value, the date of the one clock reading. That value does not depend on the
  microseconds of the reading (second-level precision) and has the ISO-8601 form
  \<^verbatim>\<open>YYYY-MM-DDTHH:MM:SSZ\<close>: twenty characters, each field zero-padded to its width and
  denoting the field of the reading. The entries of \<^verbatim>\<open>seller.py\<close> are an offer id and a stock
  and carry no timestamp.
\<close>

theorem market_stocks_share_one_timestamp:
  "(market_create_stocks ws offer_ids warehouse_id now = Inr (stocks, ids') \<longrightarrow>
      list_all (\<lambda>s. first_item_field s ''updatedAt'' = Some (Val (PStr (utc_date now)))) stocks)
   \<and> utc_date (now\<lparr>dt_microsecond := u\<rparr>) = utc_date now
   \<and> utc_date now =
       zpad 4 (dt_year now) @ ''-'' @ zpad 2 (dt_month now) @ ''-'' @ zpad 2 (dt_day now) @ ''T'' @
       zpad 2 (dt_hour now) @ '':'' @ zpad 2 (dt_minute now) @ '':'' @ zpad 2 (dt_second now) @ ''Z''
   \<and> (valid_datetime now \<longrightarrow>
        length (utc_date now) = 20
        \<and> list_all (\<lambda>(w, n). length (zpad w n) = w \<and> list_all is_digit (zpad w n)
              \<and> digits_value (zpad w n) = int n)
            [(4, dt_year now), (2, dt_month now), (2, dt_day now),
             (2, dt_hour now), (2, dt_minute now), (2, dt_second now)])
   \<and> (seller_create_stocks ws offer_ids = Inr (sstocks, sids') \<longrightarrow>
        list_all (\<lambda>s. (\<exists>i n. s = seller_stock i n) \<and> field s ''updatedAt'' = None) sstocks)"
proof (intro conjI impI)
  assume "market_create_stocks ws offer_ids warehouse_id now = Inr (stocks, ids')"
  then show "list_all (\<lambda>s. first_item_field s ''updatedAt'' = Some (Val (PStr (utc_date now)))) stocks"
    by (rule market_create_stocks_dates)
next
  show "utc_date (now\<lparr>dt_microsecond := u\<rparr>) = utc_date now"
    by (rule utc_date_seconds)
next
  show "utc_date now =
       zpad 4 (dt_year now) @ ''-'' @ zpad 2 (dt_month now) @ ''-'' @ zpad 2 (dt_day now) @ ''T'' @
       zpad 2 (dt_hour now) @ '':'' @ zpad 2 (dt_minute now) @ '':'' @ zpad 2 (dt_second now) @ ''Z''"
    by (rule utc_date_shape)
next
  assume v: "valid_datetime now"
  have y: "dt_year now < 10 ^ 4" and mo: "dt_month now < 10 ^ 2" and d: "dt_day now < 10 ^ 2"
    and h: "dt_hour now < 10 ^ 2" and mi: "dt_minute now < 10 ^ 2" and s: "dt_second now < 10 ^ 2"
    using v by (simp_all add: valid_datetime_def)
  have p4: "0 < (4::nat)" and p2: "0 < (2::nat)" by simp_all
  note zs = zpad_props [OF p4 y] zpad_props [OF p2 mo] zpad_props [OF p2 d]
    zpad_props [OF p2 h] zpad_props [OF p2 mi] zpad_props [OF p2 s]
  show "length (utc_date now) = 20"
    unfolding utc_date_shape using zs by simp
  show "list_all (\<lambda>(w, n). length (zpad w n) = w \<and> list_all is_digit (zpad w n)
              \<and> digits_value (zpad w n) = int n)
            [(4, dt_year now), (2, dt_month now), (2, dt_day now),
             (2, dt_hour now), (2, dt_minute now), (2, dt_second now)]"
    using zs by simp
next
  assume "seller_create_stocks ws offer_ids = Inr (sstocks, sids')"
  then have "list_all (\<lambda>s. \<exists>i n. s = seller_stock i n) sstocks"
    by (rule seller_create_stocks_entries)
  moreover have "field (seller_stock i n) ''updatedAt'' = None" for i n
    by (simp add: seller_stock_def)
  ultimately show "list_all (\<lambda>s. (\<exists>i n. s = seller_stock i n) \<and> field s ''updatedAt'' = None) sstocks"
    by (auto simp: list_all_iff)
qed

theorem market_stocks_share_one_timestamp_witness:
  "market_create_stocks
     [\<lparr>Kod = PInt 73397, Cena = PStr ''22'990.00'', Kolichestvo = PStr ''>10''\<rparr>]
     [PStr ''73397'', PStr ''73398''] (PStr ''WAREHOUSE_ID'')
     \<lparr>dt_year = 2025, dt_month = 2, dt_day = 6, dt_hour = 8, dt_minute = 53, dt_second = 21,
      dt_microsecond = 123456\<rparr> =
   Inr ([market_stock (PStr ''73397'') (PStr ''WAREHOUSE_ID'') 100 ''2025-02-06T08:53:21Z'',
         market_stock (PStr ''73398'') (PStr ''WAREHOUSE_ID'') 0 ''2025-02-06T08:53:21Z''],
        [PStr ''73398''])
   \<and> valid_datetime
     \<lparr>dt_year = 2025, dt_month = 2, dt_day = 6, dt_hour = 8, dt_minute = 53, dt_second = 21,
      dt_microsecond = 123456\<rparr>
   \<and> list_all (\<lambda>s. first_item_field s ''updatedAt'' = Some (Val (PStr ''2025-02-06T08:53:21Z'')))
       [market_stock (PStr ''73397'') (PStr ''WAREHOUSE_ID'') 100 ''2025-02-06T08:53:21Z'',
        market_stock (PStr ''73398'') (PStr ''WAREHOUSE_ID'') 0 ''2025-02-06T08:53:21Z'']
   \<and> length ''2025-02-06T08:53:21Z'' = 20"
proof -
  let ?now = "\<lparr>dt_year = 2025, dt_month = 2, dt_day = 6, dt_hour = 8, dt_minute = 53,
      dt_second = 21, dt_microsecond = 123456\<rparr>"
  let ?ws = "[\<lparr>Kod = PInt 73397, Cena = PStr ''22'990.00'', Kolichestvo = PStr ''>10''\<rparr>]"
  let ?stocks = "[market_stock (PStr ''73397'') (PStr ''WAREHOUSE_ID'') 100 ''2025-02-06T08:53:21Z'',
         market_stock (PStr ''73398'') (PStr ''WAREHOUSE_ID'') 0 ''2025-02-06T08:53:21Z'']"
  have u: "utc_date ?now = ''2025-02-06T08:53:21Z''"
    by (simp add: utc_date_def isoformat_def zpad_def digits_of.simps digit_char_def)
  have e: "market_create_stocks ?ws [PStr ''73397'', PStr ''73398''] (PStr ''WAREHOUSE_ID'') ?now =
      Inr (?stocks, [PStr ''73398''])"
    by (simp add: market_create_stocks_def Let_def u stock_of_def digits_of.simps digit_char_def)
  have v: "valid_datetime ?now" by (simp add: valid_datetime_def)
  from market_stocks_share_one_timestamp [of ?ws "[PStr ''73397'', PStr ''73398'']"
      "PStr ''WAREHOUSE_ID''" ?now ?stocks "[PStr ''73398'']"] e v
  have "list_all (\<lambda>s. first_item_field s ''updatedAt'' = Some (Val (PStr (utc_date ?now)))) ?stocks"
    and "length (utc_date ?now) = 20"
    by blast+
  then show ?thesis using e v unfolding u by simp
qed

section \<open>Properties of \<^verbatim>\<open>get_offer_ids\<close>\<close>

















end
